theory Spec2Isabelle
  imports Complex_Main
begin

section \<open>The multi-file video converter component\<close>

text \<open>
  A shallow embedding of the \<open>VideoConverter\<close> React component: its state variables,
  the closures \<open>initializeFFmpeg\<close>, \<open>convertVideo\<close>, \<open>onDrop\<close>, \<open>downloadVideo\<close> and
  \<open>resetConverter\<close>, and the collaborators they call (the FFmpeg engine declared in
  \<open>ffmpeg.d.ts\<close>, \<open>URL.createObjectURL\<close>/\<open>revokeObjectURL\<close>, \<open>Date.now\<close>, the console).

  \<^item> The component state and the collaborators' state are the fields of one record
    \<open>World\<close>; every state setter returns the updated world.
  \<^item> A value captured by a closure at render time (\<open>outputFormat\<close>, \<open>uploadedFiles\<close>) is
    an explicit \<open>Closure\<close> argument, so a stale capture stays visible in the model.
  \<^item> A rejected promise or a \<open>throw\<close> is the \<open>Inl\<close> branch of a result; the world is
    kept on that branch because the \<open>catch\<close> block runs on it.
  \<^item> What the engine and the clock answer is not decided by the component: it is read
    from an \<open>EngineRun\<close> record, one per conversion.
\<close>

subsection \<open>Strings\<close>

type_synonym bytes = "nat list"

definition digit :: "nat \<Rightarrow> char" where
  "digit k = ''0123456789'' ! k"

text \<open>The decimal text of a number, as a template literal prints \<open>Date.now()\<close>.\<close>

fun show_nat :: "nat \<Rightarrow> string" where
  "show_nat n = (if n < 10 then [digit n] else show_nat (n div 10) @ [digit (n mod 10)])"

declare show_nat.simps [simp del]

text \<open>\<open>s.split('.')\<close>: the segments between the dots; never an empty list.\<close>

fun split_dot :: "string \<Rightarrow> string list" where
  "split_dot [] = [[]]"
| "split_dot (c # cs) =
     (if c = CHR ''.'' then [] # split_dot cs
      else (case split_dot cs of [] \<Rightarrow> [[c]] | seg # segs \<Rightarrow> (c # seg) # segs))"

text \<open>\<open>xs.pop()\<close> read for its value: the last element, \<open>undefined\<close> on an empty array.\<close>

definition pop :: "'a list \<Rightarrow> 'a option" where
  "pop xs = (if xs = [] then None else Some (last xs))"

definition interpolate :: "string option \<Rightarrow> string" where
  "interpolate v = (case v of None \<Rightarrow> ''undefined'' | Some s \<Rightarrow> s)"

text \<open>
  \<open>name.replace(/\.[^.]+$/, `.${ext}`)\<close>: the pattern matches a dot followed by at least
  one character, none of them a dot, up to the end of the string, which can only be the
  last dot. Without such a match the name is returned as it is. (A \<open>$\<close> in the
  replacement text would be read as a pattern by \<open>replace\<close>; no value of
  \<open>OUTPUT_FORMATS\<close> has one.)
\<close>

definition replace_ext :: "string \<Rightarrow> string \<Rightarrow> string" where
  "replace_ext nm ext =
     (let suffix = rev (takeWhile (\<lambda>c. c \<noteq> CHR ''.'') (rev nm));
          rest = dropWhile (\<lambda>c. c \<noteq> CHR ''.'') (rev nm)
      in if rest \<noteq> [] \<and> suffix \<noteq> [] then rev (tl rest) @ ''.'' @ ext else nm)"

text \<open>\<open>Array.prototype.slice(0, end)\<close>: a negative \<open>end\<close> counts from the end of the array.\<close>

definition slice0 :: "'a list \<Rightarrow> int \<Rightarrow> 'a list" where
  "slice0 xs e = (if e < 0 then take (nat (int (length xs) + e)) xs else take (nat e) xs)"

text \<open>\<open>Array.prototype.splice(start, deleteCount)\<close>, for a start inside the array.\<close>

definition splice :: "nat \<Rightarrow> nat \<Rightarrow> 'a list \<Rightarrow> 'a list" where
  "splice start n xs = take start xs @ drop (start + n) xs"

subsection \<open>Data model\<close>

text \<open>
  A browser \<open>File\<close> object. The component compares files with \<open>===\<close>, which is object
  identity: \<open>fileId\<close> stands for the identity, so two objects are equal exactly when
  they are the same object.
\<close>

record File =
  fileId :: nat
  name :: string
  content :: bytes

datatype Status = S_pending | S_converting | S_completed | S_error

datatype Phase = P_idle | P_loading | P_converting | P_completed | P_error

text \<open>A JavaScript number: a double is a rational, \<open>NaN\<close> or an infinity.\<close>

datatype number = Num rat | NaN | PosInf | NegInf

text \<open>\<open>interface ConversionProgress\<close>; its \<open>progress\<close> field is called \<open>cprogress\<close> here.\<close>

record ConversionProgress =
  phase :: Phase
  message :: string
  cprogress :: "number option"

text \<open>\<open>interface FileConversion\<close>; its \<open>file\<close> field is called \<open>fileOf\<close> here.\<close>

record FileConversion =
  fileOf :: File
  status :: Status
  progress :: nat
  downloadUrl :: "string option"
  error :: "string option"

definition OUTPUT_FORMATS :: "string list" where
  "OUTPUT_FORMATS = [''mp4'', ''webm'', ''mkv'', ''mov'', ''avi'', ''m4v'', ''flv'', ''gif'']"

text \<open>The engine instance: its virtual file system, names to contents.\<close>

record FFmpeg =
  fs :: "(string \<times> bytes) list"

record Blob =
  blob_data :: bytes
  blob_type :: string

text \<open>
  The world: the four pieces of component state (\<open>conversionState\<close>, \<open>uploadedFiles\<close>,
  \<open>outputFormat\<close>, \<open>ffmpegRef.current\<close>), the collaborators' state (the object-URL
  registry with its counter for fresh URLs), and the record of calls made to
  collaborators: every \<open>argv\<close> handed to \<open>exec\<close>, every URL handed to
  \<open>revokeObjectURL\<close>, every link clicked by \<open>downloadVideo\<close>, every console line.
  \<open>timeline\<close> records the pair of \<open>uploadedFiles\<close> and \<open>conversionState\<close> after each call
  of a state setter, in the order of the calls.
\<close>

record World =
  conversionState :: ConversionProgress
  uploadedFiles :: "FileConversion list"
  outputFormat :: string
  ffmpegRef :: "FFmpeg option"
  objectUrls :: "(string \<times> Blob) list"
  urlCounter :: nat
  revoked :: "string list"
  execLog :: "string list list"
  downloads :: "(string \<times> string) list"
  console :: "string list"
  timeline :: "(FileConversion list \<times> ConversionProgress) list"

definition idleState :: ConversionProgress where
  "idleState = \<lparr>phase = P_idle, message = ''Ready for fast video conversion'', cprogress = None\<rparr>"

definition initialWorld :: World where
  "initialWorld =
     \<lparr>conversionState = idleState,
      uploadedFiles = [], outputFormat = ''mp4'', ffmpegRef = None, objectUrls = [],
      urlCounter = 0, revoked = [], execLog = [], downloads = [], console = [],
      timeline = []\<rparr>"

text \<open>What a closure created during a render has captured.\<close>

record Closure =
  c_outputFormat :: string
  c_uploadedFiles :: "FileConversion list"

definition render :: "World \<Rightarrow> Closure" where
  "render w = \<lparr>c_outputFormat = outputFormat w, c_uploadedFiles = uploadedFiles w\<rparr>"

text \<open>
  A progress event of the engine, as the handler sees it. The handler computes with the
  event's \<open>progress\<close> in double arithmetic, which is not modelled: the event carries the
  results, \<open>times100\<close> for the value of \<open>progress * 100\<close> and \<open>rounded\<close> for the text that
  the template literal prints for \<open>Math.round(progress * 100)\<close>.
\<close>

record ProgressEvent =
  times100 :: number
  rounded :: string

text \<open>
  The answers of the collaborators during one conversion. A result is \<open>None\<close> when the
  promise resolves and \<open>Some e\<close> when it rejects with the raw error text \<open>e\<close>.
  \<open>now_in\<close> and \<open>now_out\<close> are what \<open>Date.now()\<close> returns for the input and the output
  name, \<open>exec_progress\<close> the events the engine emits during \<open>exec\<close>, \<open>exec_output\<close> the
  bytes it produces.
\<close>

record EngineRun =
  load_result :: "string option"
  fetch_result :: "string option"
  now_in :: nat
  write_result :: "string option"
  now_out :: nat
  exec_progress :: "ProgressEvent list"
  exec_result :: "string option"
  exec_output :: bytes
  read_result :: "string option"
  delete_in_result :: "string option"
  delete_out_result :: "string option"

subsection \<open>Effects\<close>

type_synonym 'a io = "World \<Rightarrow> (string + 'a) \<times> World"

definition ret :: "'a \<Rightarrow> 'a io" where
  "ret x = (\<lambda>w. (Inr x, w))"

definition throw :: "string \<Rightarrow> 'a io" where
  "throw e = (\<lambda>w. (Inl e, w))"

definition andThen :: "'a io \<Rightarrow> ('a \<Rightarrow> 'b io) \<Rightarrow> 'b io" where
  "andThen m k = (\<lambda>w. case m w of (Inl e, w') \<Rightarrow> (Inl e, w') | (Inr x, w') \<Rightarrow> k x w')"

definition effect :: "(World \<Rightarrow> World) \<Rightarrow> unit io" where
  "effect f = (\<lambda>w. (Inr (), f w))"

definition setUploadedFiles ::
  "(FileConversion list \<Rightarrow> FileConversion list) \<Rightarrow> World \<Rightarrow> World" where
  "setUploadedFiles f w =
     (let v = f (uploadedFiles w)
      in w\<lparr>uploadedFiles := v, timeline := timeline w @ [(v, conversionState w)]\<rparr>)"

definition setConversionState ::
  "(ConversionProgress \<Rightarrow> ConversionProgress) \<Rightarrow> World \<Rightarrow> World" where
  "setConversionState f w =
     (let v = f (conversionState w)
      in w\<lparr>conversionState := v, timeline := timeline w @ [(uploadedFiles w, v)]\<rparr>)"

definition setOutputFormat :: "string \<Rightarrow> World \<Rightarrow> World" where
  "setOutputFormat v w = w\<lparr>outputFormat := v\<rparr>"

definition console_error :: "string \<Rightarrow> string \<Rightarrow> World \<Rightarrow> World" where
  "console_error label e w = w\<lparr>console := console w @ [label @ '' '' @ e]\<rparr>"

subsection \<open>The collaborators\<close>

text \<open>
  The engine as \<open>ffmpeg.d.ts\<close> declares it. \<open>writeFile\<close> stores an entry, \<open>readFile\<close>
  returns one, \<open>deleteFile\<close> removes one, \<open>exec\<close> runs the command: it calls the
  registered progress handler for each progress event and, when it resolves, has
  written its output under the last argument. Each of them may reject.
\<close>

definition on_fs :: "((string \<times> bytes) list \<Rightarrow> (string \<times> bytes) list) \<Rightarrow> World \<Rightarrow> World" where
  "on_fs f w = w\<lparr>ffmpegRef := map_option (\<lambda>e. e\<lparr>fs := f (fs e)\<rparr>) (ffmpegRef w)\<rparr>"

definition fs_of :: "World \<Rightarrow> (string \<times> bytes) list" where
  "fs_of w = (case ffmpegRef w of None \<Rightarrow> [] | Some e \<Rightarrow> fs e)"

definition fs_remove :: "string \<Rightarrow> (string \<times> bytes) list \<Rightarrow> (string \<times> bytes) list" where
  "fs_remove nm entries = filter (\<lambda>kv. fst kv \<noteq> nm) entries"

definition fs_store :: "string \<Rightarrow> bytes \<Rightarrow> (string \<times> bytes) list \<Rightarrow> (string \<times> bytes) list" where
  "fs_store nm d entries = fs_remove nm entries @ [(nm, d)]"

definition fetchFile :: "File \<Rightarrow> string option \<Rightarrow> bytes io" where
  "fetchFile f res = (case res of Some e \<Rightarrow> throw e | None \<Rightarrow> ret (content f))"

definition writeFile :: "string \<Rightarrow> bytes \<Rightarrow> string option \<Rightarrow> unit io" where
  "writeFile nm d res = (case res of Some e \<Rightarrow> throw e | None \<Rightarrow> effect (on_fs (fs_store nm d)))"

definition readFile :: "string \<Rightarrow> string option \<Rightarrow> bytes io" where
  "readFile nm res =
     (case res of
        Some e \<Rightarrow> throw e
      | None \<Rightarrow> (\<lambda>w. case map_of (fs_of w) nm of
                         None \<Rightarrow> throw (''no such entry: '' @ nm) w
                       | Some d \<Rightarrow> ret d w))"

definition deleteFile :: "string \<Rightarrow> string option \<Rightarrow> unit io" where
  "deleteFile nm res = (case res of Some e \<Rightarrow> throw e | None \<Rightarrow> effect (on_fs (fs_remove nm)))"

text \<open>The handler that \<open>initializeFFmpeg\<close> registers with \<open>ffmpeg.on('progress', ...)\<close>.\<close>

definition onProgress :: "ProgressEvent \<Rightarrow> World \<Rightarrow> World" where
  "onProgress p =
     setConversionState (\<lambda>prev. prev\<lparr>phase := P_converting,
        message := ''Converting... '' @ rounded p @ ''%'',
        cprogress := Some (times100 p)\<rparr>)"

fun emitProgress :: "ProgressEvent list \<Rightarrow> World \<Rightarrow> World" where
  "emitProgress [] w = w"
| "emitProgress (p # ps) w = emitProgress ps (onProgress p w)"

definition logExec :: "string list \<Rightarrow> World \<Rightarrow> World" where
  "logExec args w = w\<lparr>execLog := execLog w @ [args]\<rparr>"

definition exec :: "string list \<Rightarrow> EngineRun \<Rightarrow> unit io" where
  "exec args r =
     andThen (effect (logExec args)) (\<lambda>_.
     andThen (effect (emitProgress (exec_progress r))) (\<lambda>_.
     case exec_result r of
       Some e \<Rightarrow> throw e
     | None \<Rightarrow> effect (on_fs (fs_store (last args) (exec_output r)))))"

text \<open>\<open>URL.createObjectURL\<close> returns a URL no earlier call has returned.\<close>

definition freshUrl :: "World \<Rightarrow> string" where
  "freshUrl w = ''blob:'' @ show_nat (urlCounter w)"

definition registerUrl :: "Blob \<Rightarrow> World \<Rightarrow> World" where
  "registerUrl b w =
     w\<lparr>objectUrls := objectUrls w @ [(freshUrl w, b)], urlCounter := Suc (urlCounter w)\<rparr>"

definition createObjectURL :: "Blob \<Rightarrow> string io" where
  "createObjectURL b = (\<lambda>w. (Inr (freshUrl w), registerUrl b w))"

definition revokeObjectURL :: "string \<Rightarrow> World \<Rightarrow> World" where
  "revokeObjectURL url w =
     w\<lparr>objectUrls := filter (\<lambda>kv. fst kv \<noteq> url) (objectUrls w), revoked := revoked w @ [url]\<rparr>"

subsection \<open>The component's functions\<close>

definition loadingState :: ConversionProgress where
  "loadingState = \<lparr>phase = P_loading, message = ''Loading FFmpeg...'', cprogress = None\<rparr>"

definition initializeFFmpeg :: "EngineRun \<Rightarrow> unit io" where
  "initializeFFmpeg r =
     (\<lambda>w. case ffmpegRef w of
        Some e \<Rightarrow> (Inr (), w)
      | None \<Rightarrow>
          (let w1 = setConversionState (\<lambda>_. loadingState) w
           in case load_result r of
                None \<Rightarrow> (Inr (), w1\<lparr>ffmpegRef := Some \<lparr>fs = []\<rparr>\<rparr>)
              | Some e \<Rightarrow>
                  (Inl ''Failed to initialize video converter'',
                   console_error ''Failed to load FFmpeg:'' e w1)))"

definition inputName :: "File \<Rightarrow> EngineRun \<Rightarrow> string" where
  "inputName f r = ''input_'' @ show_nat (now_in r) @ ''.'' @ interpolate (pop (split_dot (name f)))"

definition outputName :: "string \<Rightarrow> EngineRun \<Rightarrow> string" where
  "outputName fmt r = ''output_'' @ show_nat (now_out r) @ ''.'' @ fmt"

text \<open>The argument list of lines 151 to 160: the literal, then the \<open>splice\<close> for GIF.\<close>

definition convertVideo_args :: "string \<Rightarrow> string \<Rightarrow> string \<Rightarrow> string list" where
  "convertVideo_args fmt inName outName =
     (let args = [''-i'', inName,
                  ''-c'', (if fmt = ''gif'' then ''gif'' else ''copy''),
                  ''-movflags'', ''+faststart'',
                  outName]
      in if fmt = ''gif'' then splice 3 2 args else args)"

definition mimeType :: "string \<Rightarrow> string" where
  "mimeType fmt = (if fmt = ''gif'' then ''image/gif'' else ''video/'' @ fmt)"

definition mark_converting :: "FileConversion \<Rightarrow> FileConversion \<Rightarrow> FileConversion" where
  "mark_converting fileConversion fc =
     (if fileOf fc = fileOf fileConversion then fc\<lparr>status := S_converting, progress := 0\<rparr> else fc)"

definition mark_completed :: "FileConversion \<Rightarrow> string \<Rightarrow> FileConversion \<Rightarrow> FileConversion" where
  "mark_completed fileConversion outputUrl fc =
     (if fileOf fc = fileOf fileConversion
      then fc\<lparr>status := S_completed, progress := 100, downloadUrl := Some outputUrl\<rparr> else fc)"

definition mark_error :: "FileConversion \<Rightarrow> FileConversion \<Rightarrow> FileConversion" where
  "mark_error fileConversion fc =
     (if fileOf fc = fileOf fileConversion
      then fc\<lparr>status := S_error, error := Some ''Conversion failed''\<rparr> else fc)"

definition convertingState :: "Closure \<Rightarrow> FileConversion \<Rightarrow> ConversionProgress" where
  "convertingState c fileConversion =
     \<lparr>phase = P_converting,
      message = ''Converting '' @ name (fileOf fileConversion) @ '' to .'' @ c_outputFormat c @ ''...'',
      cprogress = Some (Num 0)\<rparr>"

definition completedState :: ConversionProgress where
  "completedState =
     \<lparr>phase = P_completed, message = ''All conversions completed!'', cprogress = Some (Num 100)\<rparr>"

definition allCompleted :: "Closure \<Rightarrow> FileConversion \<Rightarrow> bool" where
  "allCompleted c fileConversion =
     list_all (\<lambda>fc. fileOf fc = fileOf fileConversion \<or> status fc = S_completed
                      \<or> status fc = S_error) (c_uploadedFiles c)"

text \<open>The body of the \<open>try\<close> block of \<open>convertVideo\<close>.\<close>

definition convertVideo_try :: "Closure \<Rightarrow> FileConversion \<Rightarrow> EngineRun \<Rightarrow> unit io" where
  "convertVideo_try c fileConversion r =
     andThen (initializeFFmpeg r) (\<lambda>_.
     andThen (effect (setUploadedFiles (map (mark_converting fileConversion)))) (\<lambda>_.
     andThen (effect (setConversionState (\<lambda>_. convertingState c fileConversion))) (\<lambda>_.
     andThen (fetchFile (fileOf fileConversion) (fetch_result r)) (\<lambda>data.
     andThen (writeFile (inputName (fileOf fileConversion) r) data (write_result r)) (\<lambda>_.
     andThen (exec (convertVideo_args (c_outputFormat c) (inputName (fileOf fileConversion) r)
                      (outputName (c_outputFormat c) r)) r) (\<lambda>_.
     andThen (readFile (outputName (c_outputFormat c) r) (read_result r)) (\<lambda>outputData.
     andThen (createObjectURL \<lparr>blob_data = outputData, blob_type = mimeType (c_outputFormat c)\<rparr>)
       (\<lambda>outputUrl.
     andThen (effect (setUploadedFiles (map (mark_completed fileConversion outputUrl)))) (\<lambda>_.
     andThen (deleteFile (inputName (fileOf fileConversion) r) (delete_in_result r)) (\<lambda>_.
     andThen (deleteFile (outputName (c_outputFormat c) r) (delete_out_result r)) (\<lambda>_.
     (if allCompleted c fileConversion
      then effect (setConversionState (\<lambda>_. completedState))
      else ret ()))))))))))))"

text \<open>The \<open>catch\<close> block of \<open>convertVideo\<close>.\<close>

definition convertVideo_catch :: "FileConversion \<Rightarrow> string \<Rightarrow> World \<Rightarrow> World" where
  "convertVideo_catch fileConversion e w =
     setUploadedFiles (map (mark_error fileConversion)) (console_error ''Conversion failed:'' e w)"

definition convertVideo :: "Closure \<Rightarrow> FileConversion \<Rightarrow> EngineRun \<Rightarrow> World \<Rightarrow> World" where
  "convertVideo c fileConversion r w =
     (case convertVideo_try c fileConversion r w of
        (Inl e, w') \<Rightarrow> convertVideo_catch fileConversion e w'
      | (Inr _, w') \<Rightarrow> w')"

definition newFile :: "File \<Rightarrow> FileConversion" where
  "newFile f = \<lparr>fileOf = f, status = S_pending, progress = 0, downloadUrl = None, error = None\<rparr>"

definition filesToProcess :: "Closure \<Rightarrow> File list \<Rightarrow> File list" where
  "filesToProcess c acceptedFiles =
     (let currentCount = int (length (c_uploadedFiles c));
          availableSlots = 5 - currentCount
      in slice0 acceptedFiles availableSlots)"

text \<open>
  \<open>onDrop\<close>. The engine's answers for the conversion of a file are \<open>env\<close> of that file.
  The \<open>convertVideo\<close> that the loop calls is the one \<open>onDrop\<close> captured, created in the
  same render, so both see the same closure \<open>c\<close>.
\<close>

definition onDrop :: "Closure \<Rightarrow> File list \<Rightarrow> (File \<Rightarrow> EngineRun) \<Rightarrow> World \<Rightarrow> World" where
  "onDrop c acceptedFiles env w =
     (let newFiles = map newFile (filesToProcess c acceptedFiles);
          w1 = setUploadedFiles (\<lambda>prev. prev @ newFiles) w
      in foldl (\<lambda>w' fileConversion. convertVideo c fileConversion (env (fileOf fileConversion)) w')
           w1 newFiles)"

text \<open>A value is truthy in \<open>if (fc.downloadUrl)\<close> when it is a non-empty string.\<close>

definition truthy :: "string option \<Rightarrow> bool" where
  "truthy v = (case v of None \<Rightarrow> False | Some s \<Rightarrow> s \<noteq> [])"

definition downloadVideo :: "Closure \<Rightarrow> FileConversion \<Rightarrow> World \<Rightarrow> World" where
  "downloadVideo c fileConversion w =
     (if truthy (downloadUrl fileConversion)
      then (let ext = c_outputFormat c
            in w\<lparr>downloads := downloads w @
                   [(the (downloadUrl fileConversion),
                     replace_ext (name (fileOf fileConversion)) ext)]\<rparr>)
      else w)"

text \<open>The \<open>forEach\<close> of \<open>resetConverter\<close> over the job list it captured.\<close>

fun revokeAll :: "FileConversion list \<Rightarrow> World \<Rightarrow> World" where
  "revokeAll [] w = w"
| "revokeAll (fc # fcs) w =
     revokeAll fcs (if truthy (downloadUrl fc) then revokeObjectURL (the (downloadUrl fc)) w else w)"

definition resetConverter :: "Closure \<Rightarrow> World \<Rightarrow> World" where
  "resetConverter c w =
     (let w1 = revokeAll (c_uploadedFiles c) w;
          w2 = setUploadedFiles (\<lambda>_. []) w1
      in setConversionState (\<lambda>_. idleState) w2)"

subsection \<open>The worlds a conversion passes through\<close>

text \<open>
  The world at each point where the \<open>try\<close> block of \<open>convertVideo\<close> can be left: after
  the engine is there, after the job is marked as converting, after the input entry is
  written, after \<open>exec\<close> has run, after it has produced its output, after the job is
  marked as completed, after each \<open>deleteFile\<close>, and at the end of the block. They are
  derived from \<open>convertVideo_try\<close> (lemma \<open>convertVideo_try_eq\<close>), not assumed.
\<close>

definition at_loading :: "World \<Rightarrow> World" where
  "at_loading w = setConversionState (\<lambda>_. loadingState) w"

definition at_ready :: "World \<Rightarrow> World" where
  "at_ready w =
     (case ffmpegRef w of Some e \<Rightarrow> w | None \<Rightarrow> (at_loading w)\<lparr>ffmpegRef := Some \<lparr>fs = []\<rparr>\<rparr>)"

definition at_started :: "Closure \<Rightarrow> FileConversion \<Rightarrow> World \<Rightarrow> World" where
  "at_started c fc w =
     setConversionState (\<lambda>_. convertingState c fc)
       (setUploadedFiles (map (mark_converting fc)) (at_ready w))"

definition at_written :: "Closure \<Rightarrow> FileConversion \<Rightarrow> EngineRun \<Rightarrow> World \<Rightarrow> World" where
  "at_written c fc r w =
     on_fs (fs_store (inputName (fileOf fc) r) (content (fileOf fc))) (at_started c fc w)"

definition at_ran :: "Closure \<Rightarrow> FileConversion \<Rightarrow> EngineRun \<Rightarrow> World \<Rightarrow> World" where
  "at_ran c fc r w =
     emitProgress (exec_progress r)
       (logExec (convertVideo_args (c_outputFormat c) (inputName (fileOf fc) r)
                   (outputName (c_outputFormat c) r))
          (at_written c fc r w))"

definition at_output :: "Closure \<Rightarrow> FileConversion \<Rightarrow> EngineRun \<Rightarrow> World \<Rightarrow> World" where
  "at_output c fc r w =
     on_fs (fs_store (outputName (c_outputFormat c) r) (exec_output r)) (at_ran c fc r w)"

definition at_completed :: "Closure \<Rightarrow> FileConversion \<Rightarrow> EngineRun \<Rightarrow> World \<Rightarrow> World" where
  "at_completed c fc r w =
     setUploadedFiles (map (mark_completed fc (freshUrl w)))
       (registerUrl \<lparr>blob_data = exec_output r, blob_type = mimeType (c_outputFormat c)\<rparr>
          (at_output c fc r w))"

definition at_deleted_in :: "Closure \<Rightarrow> FileConversion \<Rightarrow> EngineRun \<Rightarrow> World \<Rightarrow> World" where
  "at_deleted_in c fc r w = on_fs (fs_remove (inputName (fileOf fc) r)) (at_completed c fc r w)"

definition at_deleted_out :: "Closure \<Rightarrow> FileConversion \<Rightarrow> EngineRun \<Rightarrow> World \<Rightarrow> World" where
  "at_deleted_out c fc r w =
     on_fs (fs_remove (outputName (c_outputFormat c) r)) (at_deleted_in c fc r w)"

definition at_finished :: "Closure \<Rightarrow> FileConversion \<Rightarrow> EngineRun \<Rightarrow> World \<Rightarrow> World" where
  "at_finished c fc r w =
     (if allCompleted c fc
      then setConversionState (\<lambda>_. completedState) (at_deleted_out c fc r w)
      else at_deleted_out c fc r w)"

subsection \<open>User events\<close>

text \<open>
  The handlers the page calls. A handler called from the page is the closure of the
  latest render, so it has captured the state of the world it is called in. Here an event
  is handled to its end before the next one: \<open>Drop\<close> runs the whole loop of \<open>onDrop\<close>.
  Runs in which an event arrives while a drop is still in flight are the subject of the
  next subsection.
  The page offers fewer events than this function accepts (the drop zone and the format
  buttons are disabled while the phase is \<open>loading\<close> or \<open>converting\<close>, a download
  button exists only for a completed job).
\<close>

datatype Event =
    Drop "File list" "File \<Rightarrow> EngineRun"
  | SelectFormat string
  | Download nat
  | Reset

fun step :: "World \<Rightarrow> Event \<Rightarrow> World" where
  "step w (Drop acceptedFiles env) = onDrop (render w) acceptedFiles env w"
| "step w (SelectFormat v) = setOutputFormat v w"
| "step w (Download i) =
     (if i < length (uploadedFiles w) \<and> status (uploadedFiles w ! i) = S_completed
      then downloadVideo (render w) (uploadedFiles w ! i) w else w)"
| "step w Reset = resetConverter (render w) w"

definition run_events :: "Event list \<Rightarrow> World" where
  "run_events evs = foldl step initialWorld evs"

subsection \<open>Moves: the page between two awaits\<close>

text \<open>
  \<open>onDrop\<close> and \<open>convertVideo\<close> are asynchronous: at every \<open>await\<close> the page is free to
  handle something else, a click on \<open>Clear All Files\<close> (which is never disabled), a
  progress event, or the next piece of another drop that is still in flight. What
  cannot be interrupted is the code between two awaits. A move is one state change that
  this code makes, with the values it has at hand as arguments:

  \<^item> \<open>Dropped\<close>: \<open>onDrop\<close> appends the new pending jobs (lines 210 to 220), with the
    closure of the current render;
  \<^item> \<open>Loading\<close>, \<open>Loaded\<close>, \<open>LoadFailed\<close>: \<open>initializeFFmpeg\<close> sets the phase (line 98),
    stores the loaded engine in \<open>ffmpegRef\<close> (line 118), logs the failure (line 121);
  \<^item> \<open>Converting\<close>: \<open>convertVideo\<close> marks its job and sets the phase (lines 131 to 143),
    for the closure and the job of the conversion that makes the move;
  \<^item> \<open>Stored\<close>, \<open>Removed\<close>, \<open>ExecCalled\<close>: the engine in \<open>ffmpegRef\<close> gets an entry (by
    \<open>writeFile\<close> or as the output of \<open>exec\<close>), loses one (\<open>deleteFile\<close>), is handed a
    command. The world holds the files of the engine in \<open>ffmpegRef\<close> only: when two drops
    have each loaded an engine, the one stored last is in \<open>ffmpegRef\<close>, new and empty at
    that moment (\<open>Loaded\<close>), and what the other conversion does to the files of its own
    engine changes nothing in the world;
  \<^item> \<open>Progress\<close>: the progress handler runs (lines 107 to 114);
  \<^item> \<open>Completed\<close>: \<open>createObjectURL\<close> and the update of the job right behind it (lines
    167 to 177);
  \<^item> \<open>AllCompleted\<close>: the phase is set to \<open>completed\<close> (line 189);
  \<^item> \<open>Caught\<close>: the \<open>catch\<close> block (lines 197 to 204);
  \<^item> \<open>FormatSelected\<close>, \<open>DownloadPressed\<close>, \<open>ResetPressed\<close>: the user's events, handled
    with the closure of the current render.

  Every run of the page, with any number of drops in flight and with events between
  their awaits, is a list of moves: each piece of code between two awaits makes some of
  these state changes one after the other. The lists of moves also contain orders that
  the page never produces, so what holds after every list of moves holds at every
  moment of every run. \<open>run_events\<close> above is the special case in which every drop is
  finished before the next event (lemma \<open>run_events_moves\<close>).
\<close>

datatype Move =
    Dropped "File list"
  | Loading
  | Loaded
  | LoadFailed string
  | Converting Closure FileConversion
  | Stored string bytes
  | Removed string
  | ExecCalled "string list"
  | Progress ProgressEvent
  | Completed FileConversion Blob
  | AllCompleted
  | Caught FileConversion string
  | FormatSelected string
  | DownloadPressed nat
  | ResetPressed

fun move :: "World \<Rightarrow> Move \<Rightarrow> World" where
  "move w (Dropped acceptedFiles) =
     setUploadedFiles (\<lambda>prev. prev @ map newFile (filesToProcess (render w) acceptedFiles)) w"
| "move w Loading = setConversionState (\<lambda>_. loadingState) w"
| "move w Loaded = w\<lparr>ffmpegRef := Some \<lparr>fs = []\<rparr>\<rparr>"
| "move w (LoadFailed e) = console_error ''Failed to load FFmpeg:'' e w"
| "move w (Converting c fileConversion) =
     setConversionState (\<lambda>_. convertingState c fileConversion)
       (setUploadedFiles (map (mark_converting fileConversion)) w)"
| "move w (Stored nm d) = on_fs (fs_store nm d) w"
| "move w (Removed nm) = on_fs (fs_remove nm) w"
| "move w (ExecCalled args) = logExec args w"
| "move w (Progress p) = onProgress p w"
| "move w (Completed fileConversion b) =
     setUploadedFiles (map (mark_completed fileConversion (freshUrl w))) (registerUrl b w)"
| "move w AllCompleted = setConversionState (\<lambda>_. completedState) w"
| "move w (Caught fileConversion e) = convertVideo_catch fileConversion e w"
| "move w (FormatSelected v) = setOutputFormat v w"
| "move w (DownloadPressed i) =
     (if i < length (uploadedFiles w) \<and> status (uploadedFiles w ! i) = S_completed
      then downloadVideo (render w) (uploadedFiles w ! i) w else w)"
| "move w ResetPressed = resetConverter (render w) w"

definition run_moves :: "Move list \<Rightarrow> World" where
  "run_moves ms = foldl move initialWorld ms"

text \<open>
  The files the moves drop, in order. A drop hands over new \<open>File\<close> objects: in a run
  they are all different.
\<close>

fun move_files :: "Move \<Rightarrow> File list" where
  "move_files (Dropped acceptedFiles) = acceptedFiles"
| "move_files m = []"

definition fresh_moves :: "Move list \<Rightarrow> bool" where
  "fresh_moves ms \<longleftrightarrow> distinct (concat (map move_files ms))"

text \<open>\<open>plays w w'\<close>: some moves that drop no file lead from \<open>w\<close> to \<open>w'\<close>.\<close>

definition plays :: "World \<Rightarrow> World \<Rightarrow> bool" where
  "plays w w' \<longleftrightarrow> (\<exists>ms. w' = foldl move w ms \<and> concat (map move_files ms) = [])"

subsection \<open>Sample inputs\<close>

definition fileA :: File where
  "fileA = \<lparr>fileId = 1, name = ''a.mkv'', content = [1, 2, 3]\<rparr>"

definition fileB :: File where
  "fileB = \<lparr>fileId = 2, name = ''b.avi'', content = [4]\<rparr>"

definition fileC :: File where
  "fileC = \<lparr>fileId = 3, name = ''c.mov'', content = [5, 6]\<rparr>"


text \<open>An engine run in which every promise resolves, and one in which \<open>exec\<close> rejects.\<close>

definition okRun :: EngineRun where
  "okRun = \<lparr>load_result = None, fetch_result = None, now_in = 17, write_result = None,
     now_out = 18, exec_progress = [\<lparr>times100 = Num 50, rounded = ''50''\<rparr>],
     exec_result = None, exec_output = [9, 9],
     read_result = None, delete_in_result = None, delete_out_result = None\<rparr>"

definition failRun :: EngineRun where
  "failRun = okRun\<lparr>exec_result := Some ''Invalid data found when processing input''\<rparr>"

text \<open>
  The session of property P3: file A is dropped while \<open>mp4\<close> is selected, \<open>webm\<close> is
  selected once A is done, then file B is dropped.
\<close>

definition afterA :: World where
  "afterA = onDrop (render initialWorld) [fileA] (\<lambda>_. okRun) initialWorld"

definition afterB :: World where
  "afterB = onDrop (render (setOutputFormat ''webm'' afterA)) [fileB] (\<lambda>_. okRun)
              (setOutputFormat ''webm'' afterA)"

text \<open>
  A run that is in the middle of a drop of two files: the first job is done, the second
  one is marked as converting and \<open>onDrop\<close> awaits the engine.
\<close>

definition midDrop :: "Move list" where
  "midDrop =
     [Dropped [fileA, fileB], Loading, Loaded,
      Converting (render initialWorld) (newFile fileA),
      Stored ''input_17.mkv'' [1, 2, 3],
      ExecCalled [''-i'', ''input_17.mkv'', ''-c'', ''copy'', ''-movflags'', ''+faststart'',
                  ''output_18.mp4''],
      Progress \<lparr>times100 = Num 50, rounded = ''50''\<rparr>,
      Stored ''output_18.mp4'' [9, 9],
      Completed (newFile fileA) \<lparr>blob_data = [9, 9], blob_type = ''video/mp4''\<rparr>,
      Removed ''input_17.mkv'', Removed ''output_18.mp4'', AllCompleted,
      Converting (render initialWorld) (newFile fileB)]"

subsection \<open>Notions used in the statements\<close>

definition terminal :: "Status \<Rightarrow> bool" where
  "terminal s = (s = S_completed \<or> s = S_error)"

text \<open>The entries a call appended to a log: what is behind the old length.\<close>

definition added :: "'a list \<Rightarrow> 'a list \<Rightarrow> 'a list" where
  "added old new = drop (length old) new"

text \<open>A snapshot whose phase is \<open>completed\<close> although a tracked job is not terminal.\<close>

definition completed_while_unfinished :: "FileConversion list \<times> ConversionProgress \<Rightarrow> bool" where
  "completed_while_unfinished snap =
     (phase (snd snap) = P_completed \<and>
      list_ex (\<lambda>fc. status fc = S_pending \<or> status fc = S_converting) (fst snap))"

text \<open>A change of one job that keeps its file and leaves the jobs of other files alone.\<close>

definition local_to :: "File \<Rightarrow> (FileConversion \<Rightarrow> FileConversion) \<Rightarrow> bool" where
  "local_to f g \<longleftrightarrow> (\<forall>x. fileOf (g x) = fileOf x \<and> (fileOf x \<noteq> f \<longrightarrow> g x = x))"

text \<open>
  \<open>evolves f w w'\<close>: the job list of \<open>w'\<close>, and the job list of every snapshot that was
  appended to the timeline on the way from \<open>w\<close> to \<open>w'\<close>, is the job list of \<open>w\<close> with
  only the jobs of file \<open>f\<close> changed.
\<close>

definition evolves :: "File \<Rightarrow> World \<Rightarrow> World \<Rightarrow> bool" where
  "evolves f w w' \<longleftrightarrow>
     (\<exists>g. local_to f g \<and> uploadedFiles w' = map g (uploadedFiles w)) \<and>
     (\<exists>ext. timeline w' = timeline w @ ext \<and>
        (\<forall>s \<in> set ext. \<exists>g. local_to f g \<and> fst s = map g (uploadedFiles w)))"

text \<open>
  The jobs of a batch of \<open>m\<close> files, appended behind \<open>n\<close> earlier jobs, are in submission
  order in a job list: a job that has left \<open>pending\<close> has only terminal jobs before it.
\<close>

definition in_submission_order :: "nat \<Rightarrow> nat \<Rightarrow> FileConversion list \<Rightarrow> bool" where
  "in_submission_order n m jobs \<longleftrightarrow>
     (\<forall>j k. j < k \<and> k < m \<and> status (jobs ! (n + k)) \<noteq> S_pending
        \<longrightarrow> terminal (status (jobs ! (n + j))))"

text \<open>
  The jobs of a batch inside a job list, while the loop of \<open>onDrop\<close> is at the job
  number \<open>d\<close> of the batch: the batch sits behind \<open>n\<close> earlier jobs, in the order of its
  files, the jobs before number \<open>d\<close> are terminal and the jobs behind it are pending.
  In \<open>batch_state\<close> job \<open>d\<close> itself is still pending, in \<open>batch_mid\<close> it is in any status.
\<close>

definition batch_mid :: "nat \<Rightarrow> File list \<Rightarrow> nat \<Rightarrow> FileConversion list \<Rightarrow> bool" where
  "batch_mid n batch d jobs \<longleftrightarrow>
     length jobs = n + length batch \<and>
     (\<forall>i < length batch. fileOf (jobs ! (n + i)) = batch ! i) \<and>
     (\<forall>i < d. terminal (status (jobs ! (n + i)))) \<and>
     (\<forall>i. d < i \<and> i < length batch \<longrightarrow> status (jobs ! (n + i)) = S_pending)"

definition batch_state :: "nat \<Rightarrow> File list \<Rightarrow> nat \<Rightarrow> FileConversion list \<Rightarrow> bool" where
  "batch_state n batch d jobs \<longleftrightarrow>
     batch_mid n batch d jobs \<and> (d < length batch \<longrightarrow> status (jobs ! (n + d)) = S_pending)"

text \<open>An engine run in which no promise rejects.\<close>

definition run_ok :: "EngineRun \<Rightarrow> bool" where
  "run_ok r \<longleftrightarrow>
     load_result r = None \<and> fetch_result r = None \<and> write_result r = None \<and>
     exec_result r = None \<and> read_result r = None \<and> delete_in_result r = None \<and>
     delete_out_result r = None"

text \<open>An engine run in which a promise behind the engine's start rejects.\<close>

definition run_fails :: "EngineRun \<Rightarrow> bool" where
  "run_fails r \<longleftrightarrow>
     fetch_result r \<noteq> None \<or> write_result r \<noteq> None \<or> exec_result r \<noteq> None \<or>
     read_result r \<noteq> None \<or> delete_in_result r \<noteq> None \<or> delete_out_result r \<noteq> None"

text \<open>The loop of \<open>onDrop\<close> over the new jobs.\<close>

definition convertAll :: "Closure \<Rightarrow> (File \<Rightarrow> EngineRun) \<Rightarrow> FileConversion list \<Rightarrow> World \<Rightarrow> World" where
  "convertAll c env newFiles w =
     foldl (\<lambda>w' fileConversion. convertVideo c fileConversion (env (fileOf fileConversion)) w')
       w newFiles"

text \<open>The handles held by a job list: the \<open>downloadUrl\<close> of each job that has one, in order.\<close>

fun held_urls :: "FileConversion list \<Rightarrow> string list" where
  "held_urls [] = []"
| "held_urls (fc # fcs) =
     (case downloadUrl fc of None \<Rightarrow> held_urls fcs | Some u \<Rightarrow> u # held_urls fcs)"

text \<open>The URL that \<open>createObjectURL\<close> returns when the counter is at \<open>k\<close>.\<close>

definition blobUrl :: "nat \<Rightarrow> string" where
  "blobUrl k = ''blob:'' @ show_nat k"

text \<open>The files the events drop, in order.\<close>

fun dropped :: "Event \<Rightarrow> File list" where
  "dropped (Drop acceptedFiles env) = acceptedFiles"
| "dropped (SelectFormat v) = []"
| "dropped (Download i) = []"
| "dropped Reset = []"

definition fresh_drops :: "Event list \<Rightarrow> bool" where
  "fresh_drops evs \<longleftrightarrow> distinct (concat (map dropped evs))"

text \<open>
  What holds for the handles when the files \<open>files\<close> have been dropped so far: the tracked
  files are dropped files and are all different, every handle held or revoked was
  issued, and no handle occurs twice among the held and the revoked ones.
\<close>

definition handles_ok :: "File list \<Rightarrow> World \<Rightarrow> bool" where
  "handles_ok files w \<longleftrightarrow>
     set (map fileOf (uploadedFiles w)) \<subseteq> set files \<and>
     distinct (map fileOf (uploadedFiles w)) \<and>
     (\<forall>u \<in> set (held_urls (uploadedFiles w) @ revoked w). \<exists>k < urlCounter w. u = blobUrl k) \<and>
     distinct (held_urls (uploadedFiles w) @ revoked w)"

text \<open>The engine is not there yet and \<open>load\<close> rejects.\<close>

definition init_fails :: "EngineRun \<Rightarrow> World \<Rightarrow> bool" where
  "init_fails r w \<longleftrightarrow> ffmpegRef w = None \<and> load_result r \<noteq> None"

text \<open>The engine is reached and the input entry is written: \<open>exec\<close> is the next call.\<close>

definition reaches_exec :: "EngineRun \<Rightarrow> World \<Rightarrow> bool" where
  "reaches_exec r w =
     ((ffmpegRef w \<noteq> None \<or> load_result r = None) \<and> fetch_result r = None \<and> write_result r = None)"

section \<open>Properties\<close>

subsection \<open>What each primitive does to each field\<close>

lemma setUploadedFiles_fields [simp]:
  "uploadedFiles (setUploadedFiles f w) = f (uploadedFiles w)"
  "timeline (setUploadedFiles f w) = timeline w @ [(f (uploadedFiles w), conversionState w)]"
  "conversionState (setUploadedFiles f w) = conversionState w"
  "outputFormat (setUploadedFiles f w) = outputFormat w"
  "ffmpegRef (setUploadedFiles f w) = ffmpegRef w"
  "objectUrls (setUploadedFiles f w) = objectUrls w"
  "urlCounter (setUploadedFiles f w) = urlCounter w"
  "revoked (setUploadedFiles f w) = revoked w"
  "execLog (setUploadedFiles f w) = execLog w"
  "downloads (setUploadedFiles f w) = downloads w"
  "console (setUploadedFiles f w) = console w"
  by (simp_all add: setUploadedFiles_def Let_def)

lemma setConversionState_fields [simp]:
  "uploadedFiles (setConversionState f w) = uploadedFiles w"
  "timeline (setConversionState f w) = timeline w @ [(uploadedFiles w, f (conversionState w))]"
  "conversionState (setConversionState f w) = f (conversionState w)"
  "outputFormat (setConversionState f w) = outputFormat w"
  "ffmpegRef (setConversionState f w) = ffmpegRef w"
  "objectUrls (setConversionState f w) = objectUrls w"
  "urlCounter (setConversionState f w) = urlCounter w"
  "revoked (setConversionState f w) = revoked w"
  "execLog (setConversionState f w) = execLog w"
  "downloads (setConversionState f w) = downloads w"
  "console (setConversionState f w) = console w"
  by (simp_all add: setConversionState_def Let_def)

lemma on_fs_fields [simp]:
  "uploadedFiles (on_fs f w) = uploadedFiles w"
  "timeline (on_fs f w) = timeline w"
  "conversionState (on_fs f w) = conversionState w"
  "outputFormat (on_fs f w) = outputFormat w"
  "ffmpegRef (on_fs f w) = map_option (\<lambda>e. e\<lparr>fs := f (fs e)\<rparr>) (ffmpegRef w)"
  "objectUrls (on_fs f w) = objectUrls w"
  "urlCounter (on_fs f w) = urlCounter w"
  "revoked (on_fs f w) = revoked w"
  "execLog (on_fs f w) = execLog w"
  "downloads (on_fs f w) = downloads w"
  "console (on_fs f w) = console w"
  by (simp_all add: on_fs_def)

lemma console_error_fields [simp]:
  "uploadedFiles (console_error l e w) = uploadedFiles w"
  "timeline (console_error l e w) = timeline w"
  "conversionState (console_error l e w) = conversionState w"
  "outputFormat (console_error l e w) = outputFormat w"
  "ffmpegRef (console_error l e w) = ffmpegRef w"
  "objectUrls (console_error l e w) = objectUrls w"
  "urlCounter (console_error l e w) = urlCounter w"
  "revoked (console_error l e w) = revoked w"
  "execLog (console_error l e w) = execLog w"
  "downloads (console_error l e w) = downloads w"
  "console (console_error l e w) = console w @ [l @ '' '' @ e]"
  by (simp_all add: console_error_def)

lemma logExec_fields [simp]:
  "uploadedFiles (logExec a w) = uploadedFiles w"
  "timeline (logExec a w) = timeline w"
  "conversionState (logExec a w) = conversionState w"
  "outputFormat (logExec a w) = outputFormat w"
  "ffmpegRef (logExec a w) = ffmpegRef w"
  "objectUrls (logExec a w) = objectUrls w"
  "urlCounter (logExec a w) = urlCounter w"
  "revoked (logExec a w) = revoked w"
  "execLog (logExec a w) = execLog w @ [a]"
  "downloads (logExec a w) = downloads w"
  "console (logExec a w) = console w"
  by (simp_all add: logExec_def)

lemma onProgress_fields [simp]:
  "uploadedFiles (onProgress p w) = uploadedFiles w"
  "outputFormat (onProgress p w) = outputFormat w"
  "ffmpegRef (onProgress p w) = ffmpegRef w"
  "objectUrls (onProgress p w) = objectUrls w"
  "urlCounter (onProgress p w) = urlCounter w"
  "revoked (onProgress p w) = revoked w"
  "execLog (onProgress p w) = execLog w"
  "downloads (onProgress p w) = downloads w"
  "console (onProgress p w) = console w"
  by (simp_all add: onProgress_def)

lemma emitProgress_fields [simp]:
  "uploadedFiles (emitProgress ps w) = uploadedFiles w"
  "outputFormat (emitProgress ps w) = outputFormat w"
  "ffmpegRef (emitProgress ps w) = ffmpegRef w"
  "objectUrls (emitProgress ps w) = objectUrls w"
  "urlCounter (emitProgress ps w) = urlCounter w"
  "revoked (emitProgress ps w) = revoked w"
  "execLog (emitProgress ps w) = execLog w"
  "downloads (emitProgress ps w) = downloads w"
  "console (emitProgress ps w) = console w"
  by (induction ps arbitrary: w; simp)+

lemma registerUrl_fields [simp]:
  "uploadedFiles (registerUrl b w) = uploadedFiles w"
  "timeline (registerUrl b w) = timeline w"
  "conversionState (registerUrl b w) = conversionState w"
  "outputFormat (registerUrl b w) = outputFormat w"
  "ffmpegRef (registerUrl b w) = ffmpegRef w"
  "objectUrls (registerUrl b w) = objectUrls w @ [(freshUrl w, b)]"
  "urlCounter (registerUrl b w) = Suc (urlCounter w)"
  "revoked (registerUrl b w) = revoked w"
  "execLog (registerUrl b w) = execLog w"
  "downloads (registerUrl b w) = downloads w"
  "console (registerUrl b w) = console w"
  by (simp_all add: registerUrl_def)

lemmas io_defs = andThen_def effect_def ret_def throw_def

lemmas engine_defs = fetchFile_def writeFile_def readFile_def deleteFile_def exec_def
  createObjectURL_def initializeFFmpeg_def registerUrl_def freshUrl_def

lemmas eval_defs = onDrop_def render_def filesToProcess_def slice0_def newFile_def
  convertVideo_def convertVideo_try_def convertVideo_catch_def io_defs engine_defs
  setUploadedFiles_def setConversionState_def console_error_def logExec_def on_fs_def
  onProgress_def fs_store_def fs_remove_def fs_of_def inputName_def outputName_def
  convertVideo_args_def splice_def mimeType_def mark_converting_def mark_completed_def
  mark_error_def show_nat.simps digit_def pop_def
  interpolate_def truthy_def downloadVideo_def replace_ext_def resetConverter_def
  revokeAll.simps revokeObjectURL_def setOutputFormat_def initialWorld_def fileA_def fileB_def fileC_def
  okRun_def failRun_def added_def terminal_def Let_def loadingState_def convertingState_def
  completedState_def idleState_def allCompleted_def

subsection \<open>Running the try block step by step\<close>

lemma run_effect: "andThen (effect f) k w = k () (f w)"
  by (simp add: andThen_def effect_def)

lemma run_if_effect:
  "(if b then effect f else ret ()) w = (Inr (), if b then f w else w)"
  by (simp add: effect_def ret_def)

lemma run_fetchFile:
  "andThen (fetchFile f res) k w =
     (case res of Some e \<Rightarrow> (Inl e, w) | None \<Rightarrow> k (content f) w)"
  by (simp add: andThen_def fetchFile_def throw_def ret_def split: option.splits)

lemma run_writeFile:
  "andThen (writeFile nm d res) k w =
     (case res of Some e \<Rightarrow> (Inl e, w) | None \<Rightarrow> k () (on_fs (fs_store nm d) w))"
  by (simp add: andThen_def writeFile_def throw_def effect_def split: option.splits)

lemma run_deleteFile:
  "andThen (deleteFile nm res) k w =
     (case res of Some e \<Rightarrow> (Inl e, w) | None \<Rightarrow> k () (on_fs (fs_remove nm) w))"
  by (simp add: andThen_def deleteFile_def throw_def effect_def split: option.splits)

lemma run_exec:
  "andThen (exec args r) k w =
     (case exec_result r of
        Some e \<Rightarrow> (Inl e, emitProgress (exec_progress r) (logExec args w))
      | None \<Rightarrow> k () (on_fs (fs_store (last args) (exec_output r))
                        (emitProgress (exec_progress r) (logExec args w))))"
  by (simp add: andThen_def exec_def throw_def effect_def split: option.splits)

lemma run_readFile:
  "andThen (readFile nm res) k w =
     (case res of
        Some e \<Rightarrow> (Inl e, w)
      | None \<Rightarrow> (case map_of (fs_of w) nm of
                   None \<Rightarrow> (Inl (''no such entry: '' @ nm), w)
                 | Some d \<Rightarrow> k d w))"
  by (simp add: andThen_def readFile_def throw_def ret_def split: option.splits)

lemma run_createObjectURL:
  "andThen (createObjectURL b) k w = k (freshUrl w) (registerUrl b w)"
  by (simp add: andThen_def createObjectURL_def)

lemma run_initializeFFmpeg:
  "andThen (initializeFFmpeg r) k w =
     (if init_fails r w
      then (Inl ''Failed to initialize video converter'',
            console_error ''Failed to load FFmpeg:'' (the (load_result r)) (at_loading w))
      else k () (at_ready w))"
  by (auto simp: andThen_def initializeFFmpeg_def at_ready_def at_loading_def Let_def
        init_fails_def split: option.splits)

lemmas run_simps = run_effect run_if_effect run_fetchFile run_writeFile run_deleteFile run_exec
  run_readFile run_createObjectURL run_initializeFFmpeg

lemma last_convertVideo_args [simp]: "last (convertVideo_args fmt i out) = out"
  by (simp add: convertVideo_args_def splice_def)

lemma at_ready_ref: "ffmpegRef (at_ready w) \<noteq> None"
  by (simp add: at_ready_def split: option.splits)

lemma fs_of_on_fs: "ffmpegRef w \<noteq> None \<Longrightarrow> fs_of (on_fs f w) = f (fs_of w)"
  by (auto simp: fs_of_def)

lemma map_of_fs_remove [simp]: "map_of (fs_remove nm entries) nm = None"
  by (induction entries) (auto simp: fs_remove_def)

lemma map_of_fs_store [simp]: "map_of (fs_store nm d entries) nm = Some d"
  by (simp add: fs_store_def map_add_def)

lemma at_ran_ref: "ffmpegRef (at_ran c fc r w) \<noteq> None"
  by (simp add: at_ran_def at_written_def at_started_def at_ready_ref)

lemma at_output_lookup:
  "map_of (fs_of (at_output c fc r w)) (outputName (c_outputFormat c) r) = Some (exec_output r)"
  by (simp add: at_output_def fs_of_on_fs at_ran_ref)

lemma at_output_freshUrl: "freshUrl (at_output c fc r w) = freshUrl w"
  by (simp add: freshUrl_def at_output_def at_ran_def at_written_def at_started_def at_ready_def
        at_loading_def split: option.splits)

lemma convertVideo_try_eq:
  "convertVideo_try c fc r w =
     (if init_fails r w
      then (Inl ''Failed to initialize video converter'',
            console_error ''Failed to load FFmpeg:'' (the (load_result r)) (at_loading w))
      else if fetch_result r \<noteq> None then (Inl (the (fetch_result r)), at_started c fc w)
      else if write_result r \<noteq> None then (Inl (the (write_result r)), at_started c fc w)
      else if exec_result r \<noteq> None then (Inl (the (exec_result r)), at_ran c fc r w)
      else if read_result r \<noteq> None then (Inl (the (read_result r)), at_output c fc r w)
      else if delete_in_result r \<noteq> None
           then (Inl (the (delete_in_result r)), at_completed c fc r w)
      else if delete_out_result r \<noteq> None
           then (Inl (the (delete_out_result r)), at_deleted_in c fc r w)
      else (Inr (), at_finished c fc r w))"
  unfolding convertVideo_try_def
  apply (simp only: run_simps last_convertVideo_args)
  apply (simp only: at_started_def [symmetric])
  apply (simp only: at_written_def [symmetric])
  apply (simp only: at_ran_def [symmetric])
  apply (simp only: at_output_def [symmetric])
  apply (simp only: at_output_lookup at_output_freshUrl option.case)
  apply (simp only: at_completed_def [symmetric])
  apply (simp only: at_deleted_in_def [symmetric])
  apply (simp only: at_deleted_out_def [symmetric])
  apply (simp only: at_finished_def [symmetric])
  apply (simp split: option.split)
  done

lemma case_result_if:
  "(case (if b then p else q) of (Inl e, w') \<Rightarrow> f e w' | (Inr u, w') \<Rightarrow> g u w') =
     (if b then (case p of (Inl e, w') \<Rightarrow> f e w' | (Inr u, w') \<Rightarrow> g u w')
      else (case q of (Inl e, w') \<Rightarrow> f e w' | (Inr u, w') \<Rightarrow> g u w'))"
  by simp

lemma convertVideo_eq:
  "convertVideo c fc r w =
     (if init_fails r w
      then convertVideo_catch fc ''Failed to initialize video converter''
             (console_error ''Failed to load FFmpeg:'' (the (load_result r)) (at_loading w))
      else if fetch_result r \<noteq> None
           then convertVideo_catch fc (the (fetch_result r)) (at_started c fc w)
      else if write_result r \<noteq> None
           then convertVideo_catch fc (the (write_result r)) (at_started c fc w)
      else if exec_result r \<noteq> None
           then convertVideo_catch fc (the (exec_result r)) (at_ran c fc r w)
      else if read_result r \<noteq> None
           then convertVideo_catch fc (the (read_result r)) (at_output c fc r w)
      else if delete_in_result r \<noteq> None
           then convertVideo_catch fc (the (delete_in_result r)) (at_completed c fc r w)
      else if delete_out_result r \<noteq> None
           then convertVideo_catch fc (the (delete_out_result r)) (at_deleted_in c fc r w)
      else at_finished c fc r w)"
  by (simp only: convertVideo_def convertVideo_try_eq case_result_if prod.case sum.case)

subsection \<open>The fields of the worlds a conversion passes through\<close>

lemma at_loading_fields [simp]:
  "uploadedFiles (at_loading w) = uploadedFiles w"
  "outputFormat (at_loading w) = outputFormat w"
  "ffmpegRef (at_loading w) = ffmpegRef w"
  "objectUrls (at_loading w) = objectUrls w"
  "urlCounter (at_loading w) = urlCounter w"
  "revoked (at_loading w) = revoked w"
  "execLog (at_loading w) = execLog w"
  "downloads (at_loading w) = downloads w"
  "console (at_loading w) = console w"
  by (simp_all add: at_loading_def)

lemma at_ready_fields [simp]:
  "uploadedFiles (at_ready w) = uploadedFiles w"
  "outputFormat (at_ready w) = outputFormat w"
  "objectUrls (at_ready w) = objectUrls w"
  "urlCounter (at_ready w) = urlCounter w"
  "revoked (at_ready w) = revoked w"
  "execLog (at_ready w) = execLog w"
  "downloads (at_ready w) = downloads w"
  "console (at_ready w) = console w"
  by (simp_all add: at_ready_def split: option.splits)

lemma at_started_fields [simp]:
  "uploadedFiles (at_started c fc w) = map (mark_converting fc) (uploadedFiles w)"
  "outputFormat (at_started c fc w) = outputFormat w"
  "ffmpegRef (at_started c fc w) = ffmpegRef (at_ready w)"
  "objectUrls (at_started c fc w) = objectUrls w"
  "urlCounter (at_started c fc w) = urlCounter w"
  "revoked (at_started c fc w) = revoked w"
  "execLog (at_started c fc w) = execLog w"
  "downloads (at_started c fc w) = downloads w"
  "console (at_started c fc w) = console w"
  by (simp_all add: at_started_def)

lemma at_written_fields [simp]:
  "uploadedFiles (at_written c fc r w) = map (mark_converting fc) (uploadedFiles w)"
  "outputFormat (at_written c fc r w) = outputFormat w"
  "objectUrls (at_written c fc r w) = objectUrls w"
  "urlCounter (at_written c fc r w) = urlCounter w"
  "revoked (at_written c fc r w) = revoked w"
  "execLog (at_written c fc r w) = execLog w"
  "downloads (at_written c fc r w) = downloads w"
  "console (at_written c fc r w) = console w"
  by (simp_all add: at_written_def)

lemma at_ran_fields [simp]:
  "uploadedFiles (at_ran c fc r w) = map (mark_converting fc) (uploadedFiles w)"
  "outputFormat (at_ran c fc r w) = outputFormat w"
  "objectUrls (at_ran c fc r w) = objectUrls w"
  "urlCounter (at_ran c fc r w) = urlCounter w"
  "revoked (at_ran c fc r w) = revoked w"
  "execLog (at_ran c fc r w) =
     execLog w @ [convertVideo_args (c_outputFormat c) (inputName (fileOf fc) r)
                    (outputName (c_outputFormat c) r)]"
  "downloads (at_ran c fc r w) = downloads w"
  "console (at_ran c fc r w) = console w"
  by (simp_all add: at_ran_def)

lemma at_output_fields [simp]:
  "uploadedFiles (at_output c fc r w) = map (mark_converting fc) (uploadedFiles w)"
  "outputFormat (at_output c fc r w) = outputFormat w"
  "objectUrls (at_output c fc r w) = objectUrls w"
  "urlCounter (at_output c fc r w) = urlCounter w"
  "revoked (at_output c fc r w) = revoked w"
  "execLog (at_output c fc r w) = execLog (at_ran c fc r w)"
  "downloads (at_output c fc r w) = downloads w"
  "console (at_output c fc r w) = console w"
  by (simp_all add: at_output_def)

lemma at_completed_fields [simp]:
  "uploadedFiles (at_completed c fc r w) =
     map (mark_completed fc (freshUrl w)) (map (mark_converting fc) (uploadedFiles w))"
  "outputFormat (at_completed c fc r w) = outputFormat w"
  "objectUrls (at_completed c fc r w) =
     objectUrls w @ [(freshUrl w, \<lparr>blob_data = exec_output r,
                                    blob_type = mimeType (c_outputFormat c)\<rparr>)]"
  "urlCounter (at_completed c fc r w) = Suc (urlCounter w)"
  "revoked (at_completed c fc r w) = revoked w"
  "execLog (at_completed c fc r w) = execLog (at_ran c fc r w)"
  "downloads (at_completed c fc r w) = downloads w"
  "console (at_completed c fc r w) = console w"
  by (simp_all add: at_completed_def at_output_freshUrl)

lemma at_deleted_in_fields [simp]:
  "uploadedFiles (at_deleted_in c fc r w) = uploadedFiles (at_completed c fc r w)"
  "outputFormat (at_deleted_in c fc r w) = outputFormat w"
  "objectUrls (at_deleted_in c fc r w) = objectUrls (at_completed c fc r w)"
  "urlCounter (at_deleted_in c fc r w) = Suc (urlCounter w)"
  "revoked (at_deleted_in c fc r w) = revoked w"
  "execLog (at_deleted_in c fc r w) = execLog (at_ran c fc r w)"
  "downloads (at_deleted_in c fc r w) = downloads w"
  "console (at_deleted_in c fc r w) = console w"
  by (simp_all add: at_deleted_in_def)

lemma at_deleted_out_fields [simp]:
  "uploadedFiles (at_deleted_out c fc r w) = uploadedFiles (at_completed c fc r w)"
  "outputFormat (at_deleted_out c fc r w) = outputFormat w"
  "objectUrls (at_deleted_out c fc r w) = objectUrls (at_completed c fc r w)"
  "urlCounter (at_deleted_out c fc r w) = Suc (urlCounter w)"
  "revoked (at_deleted_out c fc r w) = revoked w"
  "execLog (at_deleted_out c fc r w) = execLog (at_ran c fc r w)"
  "downloads (at_deleted_out c fc r w) = downloads w"
  "console (at_deleted_out c fc r w) = console w"
  by (simp_all add: at_deleted_out_def)

lemma at_finished_fields [simp]:
  "uploadedFiles (at_finished c fc r w) = uploadedFiles (at_completed c fc r w)"
  "outputFormat (at_finished c fc r w) = outputFormat w"
  "objectUrls (at_finished c fc r w) = objectUrls (at_completed c fc r w)"
  "urlCounter (at_finished c fc r w) = Suc (urlCounter w)"
  "revoked (at_finished c fc r w) = revoked w"
  "execLog (at_finished c fc r w) = execLog (at_ran c fc r w)"
  "downloads (at_finished c fc r w) = downloads w"
  "console (at_finished c fc r w) = console w"
  by (simp_all add: at_finished_def)

lemma convertVideo_catch_fields [simp]:
  "uploadedFiles (convertVideo_catch fc e w) = map (mark_error fc) (uploadedFiles w)"
  "outputFormat (convertVideo_catch fc e w) = outputFormat w"
  "ffmpegRef (convertVideo_catch fc e w) = ffmpegRef w"
  "objectUrls (convertVideo_catch fc e w) = objectUrls w"
  "urlCounter (convertVideo_catch fc e w) = urlCounter w"
  "revoked (convertVideo_catch fc e w) = revoked w"
  "execLog (convertVideo_catch fc e w) = execLog w"
  "downloads (convertVideo_catch fc e w) = downloads w"
  "console (convertVideo_catch fc e w) = console w @ [''Conversion failed: '' @ e]"
  by (simp_all add: convertVideo_catch_def)

subsection \<open>The command handed to the engine\<close>

lemma convertVideo_execLog:
  "execLog (convertVideo c fc r w) =
     execLog w @ (if reaches_exec r w
                  then [convertVideo_args (c_outputFormat c) (inputName (fileOf fc) r)
                          (outputName (c_outputFormat c) r)]
                  else [])"
  by (auto simp: convertVideo_eq reaches_exec_def init_fails_def)

lemma inputName_not_copy: "inputName f r \<noteq> ''copy''"
  by (simp add: inputName_def)

lemma outputName_not_copy: "outputName fmt r \<noteq> ''copy''"
  by (simp add: outputName_def)

text \<open>
  Claim C7. The command is built by a two-way branch on the target format. Every
  argument list that a conversion hands to \<open>exec\<close> is, for a target format other than
  \<open>gif\<close>, the input, the stream-copy option \<open>-c copy\<close>, \<open>-movflags +faststart\<close> and the
  output; for \<open>gif\<close> it contains no \<open>copy\<close>.
\<close>

theorem non_gif_copies_streams_gif_does_not:
  assumes "argv \<in> set (added (execLog w) (execLog (convertVideo c fc r w)))"
  shows "if c_outputFormat c = ''gif''
         then ''copy'' \<notin> set argv
         else argv = [''-i'', inputName (fileOf fc) r, ''-c'', ''copy'',
                      ''-movflags'', ''+faststart'', outputName (c_outputFormat c) r]"
  using assms
  by (auto simp: convertVideo_execLog added_def convertVideo_args_def splice_def
        inputName_not_copy outputName_not_copy inputName_not_copy [symmetric]
        outputName_not_copy [symmetric] split: if_splits)

theorem non_gif_copies_streams_gif_does_not_witness:
  "[''-i'', ''input_17.mkv'', ''-c'', ''copy'', ''-movflags'', ''+faststart'', ''output_18.mp4'']
     \<in> set (added (execLog initialWorld)
          (execLog (convertVideo (render initialWorld) (newFile fileA) okRun initialWorld)))
   \<and> [''-i'', ''input_17.mkv'', ''-c'', ''+faststart'', ''output_18.gif'']
     \<in> set (added (execLog (setOutputFormat ''gif'' initialWorld))
          (execLog (convertVideo (render (setOutputFormat ''gif'' initialWorld)) (newFile fileA)
             okRun (setOutputFormat ''gif'' initialWorld))))
   \<and> ''copy'' \<notin> set [''-i'', ''input_17.mkv'', ''-c'', ''+faststart'', ''output_18.gif'']"
proof -
  have a: "[''-i'', ''input_17.mkv'', ''-c'', ''copy'', ''-movflags'', ''+faststart'', ''output_18.mp4'']
     \<in> set (added (execLog initialWorld)
          (execLog (convertVideo (render initialWorld) (newFile fileA) okRun initialWorld)))"
    by (simp add: eval_defs)
  have b: "[''-i'', ''input_17.mkv'', ''-c'', ''+faststart'', ''output_18.gif'']
     \<in> set (added (execLog (setOutputFormat ''gif'' initialWorld))
          (execLog (convertVideo (render (setOutputFormat ''gif'' initialWorld)) (newFile fileA)
             okRun (setOutputFormat ''gif'' initialWorld))))"
    by (simp add: eval_defs)
  from non_gif_copies_streams_gif_does_not [OF a] non_gif_copies_streams_gif_does_not [OF b] a b
  show ?thesis by (simp add: render_def setOutputFormat_def initialWorld_def)
qed

text \<open>
  Claim C10. For the target format \<open>gif\<close> the \<open>splice\<close> at index 3 removes the codec value
  and the option name \<open>-movflags\<close>: every argument list handed to \<open>exec\<close> is exactly
  \<open>-i\<close>, the input name, \<open>-c\<close>, \<open>+faststart\<close>, the output name, with no \<open>-movflags\<close> in it,
  and it is handed over once whenever the conversion gets as far as \<open>exec\<close>.
\<close>

theorem gif_command_keeps_c_and_loses_movflags:
  assumes "c_outputFormat c = ''gif''"
  shows "(\<forall>argv \<in> set (added (execLog w) (execLog (convertVideo c fc r w))).
            argv = [''-i'', inputName (fileOf fc) r, ''-c'', ''+faststart'', outputName ''gif'' r]
            \<and> ''-movflags'' \<notin> set argv)
       \<and> (reaches_exec r w \<longrightarrow>
            execLog (convertVideo c fc r w) =
              execLog w @ [[''-i'', inputName (fileOf fc) r, ''-c'', ''+faststart'',
                            outputName ''gif'' r]])"
  using assms
  by (auto simp: convertVideo_execLog added_def convertVideo_args_def splice_def
        inputName_def outputName_def)

theorem gif_command_keeps_c_and_loses_movflags_witness:
  "c_outputFormat (render (setOutputFormat ''gif'' initialWorld)) = ''gif''
   \<and> reaches_exec okRun (setOutputFormat ''gif'' initialWorld)
   \<and> execLog (convertVideo (render (setOutputFormat ''gif'' initialWorld)) (newFile fileA) okRun
        (setOutputFormat ''gif'' initialWorld))
     = [[''-i'', ''input_17.mkv'', ''-c'', ''+faststart'', ''output_18.gif'']]"
proof -
  have g: "c_outputFormat (render (setOutputFormat ''gif'' initialWorld)) = ''gif''"
    by (simp add: render_def setOutputFormat_def)
  have r: "reaches_exec okRun (setOutputFormat ''gif'' initialWorld)"
    by (simp add: reaches_exec_def okRun_def)
  from gif_command_keeps_c_and_loses_movflags [OF g, of "setOutputFormat ''gif'' initialWorld"
      "newFile fileA" okRun] g r
  show ?thesis
    by (simp add: inputName_def outputName_def okRun_def newFile_def fileA_def
        setOutputFormat_def initialWorld_def show_nat.simps digit_def pop_def interpolate_def)
qed

subsection \<open>Evaluating the component on sample sessions\<close>

lemmas sym_defs = onDrop_def filesToProcess_def slice0_def render_def newFile_def convertVideo_eq
  okRun_def failRun_def initialWorld_def setOutputFormat_def mark_converting_def
  mark_completed_def mark_error_def freshUrl_def show_nat.simps digit_def inputName_def
  outputName_def convertVideo_args_def splice_def mimeType_def pop_def interpolate_def
  fileA_def fileB_def fileC_def allCompleted_def init_fails_def

lemmas stage_defs = at_loading_def at_ready_def at_started_def at_written_def at_ran_def
  at_output_def at_completed_def at_deleted_in_def at_deleted_out_def at_finished_def
  convertVideo_catch_def

text \<open>
  Claim C1 (each job's conversion and download name use the format selected when the job
  was submitted). The conversion does: in the session \<open>afterB\<close> job A was converted to
  \<open>output_18.mp4\<close> with type \<open>video/mp4\<close> and job B to \<open>webm\<close>. The download name does
  not: \<open>downloadVideo\<close> reads the format selected when the button is pressed, so the
  \<open>mp4\<close> result of job A is delivered under the name \<open>a.webm\<close>.
\<close>

theorem download_name_follows_current_format:
  "map (\<lambda>fc. (name (fileOf fc), status fc)) (uploadedFiles afterB)
     = [(''a.mkv'', S_completed), (''b.avi'', S_completed)]
   \<and> map last (execLog afterB) = [''output_18.mp4'', ''output_18.webm'']
   \<and> map (blob_type \<circ> snd) (objectUrls afterB) = [''video/mp4'', ''video/webm'']
   \<and> downloads (downloadVideo (render afterB) (uploadedFiles afterB ! 0) afterB)
       = [(''blob:0'', ''a.webm'')]"
  by (simp add: afterA_def afterB_def sym_defs downloadVideo_def truthy_def replace_ext_def)

text \<open>
  Claim C2 (the phase is \<open>completed\<close> only when every tracked job is terminal). The check
  after a conversion reads the job list captured by the closure, which is the list from
  before the drop: dropping two files on the empty converter, the phase is set to
  \<open>completed\<close> when the first job is done, while the second is still pending.
\<close>

theorem phase_completed_while_job_pending:
  "list_ex completed_while_unfinished
     (timeline (onDrop (render initialWorld) [fileA, fileB] (\<lambda>_. okRun) initialWorld))"
  by (simp add: sym_defs stage_defs completed_while_unfinished_def completedState_def
      convertingState_def loadingState_def idleState_def onProgress_def)

text \<open>
  Claim C3 (the engine's entries of a conversion are removed on every path). The two
  \<open>deleteFile\<close> calls are inside the \<open>try\<close> block and the \<open>catch\<close> block has none: when
  \<open>exec\<close> rejects, the input entry written before stays in the engine's file system.
\<close>

theorem failed_exec_leaves_input_entry:
  "fs_of (convertVideo (render initialWorld) (newFile fileA) failRun initialWorld)
     = [(''input_17.mkv'', [1, 2, 3])]"
  by (simp add: sym_defs stage_defs fs_of_def fs_store_def fs_remove_def)

text \<open>
  Claim C4 (a terminal job has exactly one of \<open>downloadUrl\<close> and \<open>error\<close>, and stays as it
  is). The clean-up runs inside the \<open>try\<close> block after the job is marked as completed:
  when \<open>deleteFile\<close> rejects, the \<open>catch\<close> block turns the completed job into a failed
  one that keeps its \<open>downloadUrl\<close> and gets an \<open>error\<close> as well.
\<close>

theorem failed_cleanup_overwrites_completed_job:
  "[\<lparr>fileOf = fileA, status = S_completed, progress = 100,
     downloadUrl = Some ''blob:0'', error = None\<rparr>]
     \<in> set (map fst (timeline (onDrop (render initialWorld) [fileA]
            (\<lambda>_. okRun\<lparr>delete_in_result := Some ''worker terminated''\<rparr>) initialWorld)))
   \<and> uploadedFiles (onDrop (render initialWorld) [fileA]
         (\<lambda>_. okRun\<lparr>delete_in_result := Some ''worker terminated''\<rparr>) initialWorld)
     = [\<lparr>fileOf = fileA, status = S_error, progress = 100,
         downloadUrl = Some ''blob:0'', error = Some ''Conversion failed''\<rparr>]"
  by (simp add: sym_defs stage_defs completedState_def convertingState_def loadingState_def
      idleState_def onProgress_def)

subsection \<open>A conversion touches the jobs of its own file only\<close>

lemma local_to_id: "local_to f (\<lambda>x. x)"
  by (simp add: local_to_def)

lemma local_to_comp: "local_to f g \<Longrightarrow> local_to f h \<Longrightarrow> local_to f (\<lambda>x. h (g x))"
  by (simp add: local_to_def)

lemma local_to_mark [simp]:
  "local_to (fileOf fc) (mark_converting fc)"
  "local_to (fileOf fc) (mark_completed fc u)"
  "local_to (fileOf fc) (mark_error fc)"
  by (simp_all add: local_to_def mark_converting_def mark_completed_def mark_error_def)

lemma evolves_refl: "evolves f w w"
  unfolding evolves_def using local_to_id [of f] by (intro conjI exI [of _ "\<lambda>x. x"]) auto

lemma evolves_same:
  "evolves f w w' \<Longrightarrow> uploadedFiles w'' = uploadedFiles w' \<Longrightarrow> timeline w'' = timeline w'
   \<Longrightarrow> evolves f w w''"
  by (simp add: evolves_def)

lemma evolves_step:
  assumes "evolves f w w'"
    and up: "\<exists>k. local_to f k \<and> uploadedFiles w'' = map k (uploadedFiles w)"
    and tl: "timeline w'' = timeline w' @ [(uploadedFiles w'', cs)]"
  shows "evolves f w w''"
proof -
  from assms(1) obtain ext where ext: "timeline w' = timeline w @ ext"
      "\<forall>s \<in> set ext. \<exists>g. local_to f g \<and> fst s = map g (uploadedFiles w)"
    unfolding evolves_def by blast
  have t: "timeline w'' = timeline w @ (ext @ [(uploadedFiles w'', cs)])"
    by (simp add: tl ext(1))
  from up have "\<exists>k. local_to f k \<and> fst (uploadedFiles w'', cs) = map k (uploadedFiles w)"
    by (simp only: fst_conv)
  with ext(2) have "\<forall>s \<in> set (ext @ [(uploadedFiles w'', cs)]).
                      \<exists>g. local_to f g \<and> fst s = map g (uploadedFiles w)"
    by (simp only: set_append ball_Un list.set ball_simps)
  with up t show ?thesis
    unfolding evolves_def by blast
qed

lemma evolves_setConversionState:
  assumes "evolves f w w'"
  shows "evolves f w (setConversionState h w')"
proof (rule evolves_step [OF assms])
  from assms show "\<exists>k. local_to f k \<and>
      uploadedFiles (setConversionState h w') = map k (uploadedFiles w)"
    by (simp add: evolves_def)
  show "timeline (setConversionState h w') =
      timeline w' @ [(uploadedFiles (setConversionState h w'), h (conversionState w'))]"
    by simp
qed

lemma evolves_setUploadedFiles:
  assumes "evolves f w w'" and "local_to f h"
  shows "evolves f w (setUploadedFiles (map h) w')"
proof (rule evolves_step [OF assms(1)])
  from assms(1) obtain g where g: "local_to f g" "uploadedFiles w' = map g (uploadedFiles w)"
    unfolding evolves_def by blast
  have "local_to f (\<lambda>x. h (g x))"
    using g(1) assms(2) by (rule local_to_comp)
  moreover have "uploadedFiles (setUploadedFiles (map h) w') =
      map (\<lambda>x. h (g x)) (uploadedFiles w)"
    by (simp add: g(2))
  ultimately show "\<exists>k. local_to f k \<and>
      uploadedFiles (setUploadedFiles (map h) w') = map k (uploadedFiles w)"
    by blast
  show "timeline (setUploadedFiles (map h) w') =
      timeline w' @ [(uploadedFiles (setUploadedFiles (map h) w'), conversionState w')]"
    by simp
qed

lemma evolves_on_fs: "evolves f w w' \<Longrightarrow> evolves f w (on_fs h w')"
  by (erule evolves_same) simp_all

lemma evolves_logExec: "evolves f w w' \<Longrightarrow> evolves f w (logExec a w')"
  by (erule evolves_same) simp_all

lemma evolves_registerUrl: "evolves f w w' \<Longrightarrow> evolves f w (registerUrl b w')"
  by (erule evolves_same) simp_all

lemma evolves_console_error: "evolves f w w' \<Longrightarrow> evolves f w (console_error l e w')"
  by (erule evolves_same) simp_all

lemma evolves_emitProgress: "evolves f w w' \<Longrightarrow> evolves f w (emitProgress ps w')"
proof (induction ps arbitrary: w')
  case Nil
  then show ?case by simp
next
  case (Cons p ps)
  from Cons.prems have "evolves f w (onProgress p w')"
    unfolding onProgress_def by (rule evolves_setConversionState)
  then show ?case by (simp add: Cons.IH)
qed

lemma evolves_at_ready: "evolves f w (at_ready w)"
proof (cases "ffmpegRef w")
  case None
  have "evolves f w (at_loading w)"
    unfolding at_loading_def by (rule evolves_setConversionState [OF evolves_refl])
  then show ?thesis
    using None by (auto simp: at_ready_def elim: evolves_same)
next
  case (Some e)
  then show ?thesis by (simp add: at_ready_def evolves_refl)
qed

lemmas evolves_intros = evolves_setConversionState evolves_setUploadedFiles evolves_on_fs
  evolves_logExec evolves_registerUrl evolves_console_error evolves_emitProgress
  evolves_at_ready local_to_mark

lemma evolves_at_loading: "evolves f w (at_loading w)"
  unfolding at_loading_def by (rule evolves_setConversionState [OF evolves_refl])

lemma evolves_at_started: "evolves (fileOf fc) w (at_started c fc w)"
  unfolding at_started_def by (intro evolves_intros)

lemma evolves_at_ran: "evolves (fileOf fc) w (at_ran c fc r w)"
  unfolding at_ran_def at_written_def by (intro evolves_intros evolves_at_started)

lemma evolves_at_output: "evolves (fileOf fc) w (at_output c fc r w)"
  unfolding at_output_def by (intro evolves_intros evolves_at_ran)

lemma evolves_at_completed: "evolves (fileOf fc) w (at_completed c fc r w)"
  unfolding at_completed_def by (intro evolves_intros evolves_at_output)

lemma evolves_at_deleted_in: "evolves (fileOf fc) w (at_deleted_in c fc r w)"
  unfolding at_deleted_in_def by (intro evolves_intros evolves_at_completed)

lemma evolves_at_finished: "evolves (fileOf fc) w (at_finished c fc r w)"
  unfolding at_finished_def at_deleted_out_def
  by (auto intro!: evolves_intros evolves_at_deleted_in)

lemma evolves_catch:
  "evolves (fileOf fc) w w' \<Longrightarrow> evolves (fileOf fc) w (convertVideo_catch fc e w')"
  unfolding convertVideo_catch_def by (intro evolves_intros)

lemma convertVideo_evolves: "evolves (fileOf fc) w (convertVideo c fc r w)"
  unfolding convertVideo_eq
  by (auto intro!: evolves_catch evolves_console_error evolves_at_loading evolves_at_started
        evolves_at_ran evolves_at_output evolves_at_completed evolves_at_deleted_in
        evolves_at_finished)

subsection \<open>The four ways a conversion can end\<close>

lemma convertVideo_unchanged [simp]:
  "revoked (convertVideo c fc r w) = revoked w"
  "outputFormat (convertVideo c fc r w) = outputFormat w"
  "downloads (convertVideo c fc r w) = downloads w"
  by (simp_all add: convertVideo_eq)

lemma convertVideo_cases:
  obtains
    (failed_early) e where
      "fst (convertVideo_try c fc r w) = Inl e"
      "uploadedFiles (convertVideo c fc r w) = map (mark_error fc) (uploadedFiles w)"
      "urlCounter (convertVideo c fc r w) = urlCounter w"
  | (failed_converting) e where
      "fst (convertVideo_try c fc r w) = Inl e"
      "uploadedFiles (convertVideo c fc r w) =
         map (mark_error fc) (map (mark_converting fc) (uploadedFiles w))"
      "urlCounter (convertVideo c fc r w) = urlCounter w"
  | (failed_cleanup) e where
      "fst (convertVideo_try c fc r w) = Inl e"
      "uploadedFiles (convertVideo c fc r w) =
         map (mark_error fc) (map (mark_completed fc (freshUrl w))
           (map (mark_converting fc) (uploadedFiles w)))"
      "urlCounter (convertVideo c fc r w) = Suc (urlCounter w)"
  | (finished)
      "fst (convertVideo_try c fc r w) = Inr ()"
      "uploadedFiles (convertVideo c fc r w) =
         map (mark_completed fc (freshUrl w)) (map (mark_converting fc) (uploadedFiles w))"
      "urlCounter (convertVideo c fc r w) = Suc (urlCounter w)"
proof -
  consider (a) "init_fails r w"
    | (b) "\<not> init_fails r w" "fetch_result r \<noteq> None"
    | (c) "\<not> init_fails r w" "fetch_result r = None" "write_result r \<noteq> None"
    | (d) "\<not> init_fails r w" "fetch_result r = None" "write_result r = None"
          "exec_result r \<noteq> None"
    | (e) "\<not> init_fails r w" "fetch_result r = None" "write_result r = None"
          "exec_result r = None" "read_result r \<noteq> None"
    | (f) "\<not> init_fails r w" "fetch_result r = None" "write_result r = None"
          "exec_result r = None" "read_result r = None" "delete_in_result r \<noteq> None"
    | (g) "\<not> init_fails r w" "fetch_result r = None" "write_result r = None"
          "exec_result r = None" "read_result r = None" "delete_in_result r = None"
          "delete_out_result r \<noteq> None"
    | (h) "\<not> init_fails r w" "fetch_result r = None" "write_result r = None"
          "exec_result r = None" "read_result r = None" "delete_in_result r = None"
          "delete_out_result r = None"
    by blast
  then show thesis
  proof cases
    case a
    then show thesis
      by (intro failed_early [of "''Failed to initialize video converter''"])
        (simp_all add: convertVideo_eq convertVideo_try_eq)
  next
    case b
    then show thesis
      by (intro failed_converting [of "the (fetch_result r)"])
        (simp_all add: convertVideo_eq convertVideo_try_eq)
  next
    case c
    then show thesis
      by (intro failed_converting [of "the (write_result r)"])
        (simp_all add: convertVideo_eq convertVideo_try_eq)
  next
    case d
    then show thesis
      by (intro failed_converting [of "the (exec_result r)"])
        (simp_all add: convertVideo_eq convertVideo_try_eq)
  next
    case e
    then show thesis
      by (intro failed_converting [of "the (read_result r)"])
        (simp_all add: convertVideo_eq convertVideo_try_eq)
  next
    case f
    then show thesis
      by (intro failed_cleanup [of "the (delete_in_result r)"])
        (simp_all add: convertVideo_eq convertVideo_try_eq)
  next
    case g
    then show thesis
      by (intro failed_cleanup [of "the (delete_out_result r)"])
        (simp_all add: convertVideo_eq convertVideo_try_eq)
  next
    case h
    then show thesis
      by (intro finished) (simp_all add: convertVideo_eq convertVideo_try_eq)
  qed
qed

lemma mark_error_terminal: "fileOf x = fileOf fc \<Longrightarrow> terminal (status (mark_error fc x))"
  by (simp add: mark_error_def terminal_def)

lemma mark_completed_terminal:
  "fileOf x = fileOf fc \<Longrightarrow> terminal (status (mark_completed fc u x))"
  by (simp add: mark_completed_def terminal_def)

lemma mark_fileOf [simp]:
  "fileOf (mark_converting fc x) = fileOf x"
  "fileOf (mark_completed fc u x) = fileOf x"
  "fileOf (mark_error fc x) = fileOf x"
  by (simp_all add: mark_converting_def mark_completed_def mark_error_def)

lemma mark_other [simp]:
  "fileOf x \<noteq> fileOf fc \<Longrightarrow> mark_converting fc x = x"
  "fileOf x \<noteq> fileOf fc \<Longrightarrow> mark_completed fc u x = x"
  "fileOf x \<noteq> fileOf fc \<Longrightarrow> mark_error fc x = x"
  by (simp_all add: mark_converting_def mark_completed_def mark_error_def)

text \<open>After a conversion the jobs of its file are terminal, the others are as before.\<close>

lemma convertVideo_settles:
  "\<exists>g. uploadedFiles (convertVideo c fc r w) = map g (uploadedFiles w) \<and>
       local_to (fileOf fc) g \<and> (\<forall>x. fileOf x = fileOf fc \<longrightarrow> terminal (status (g x)))"
proof (cases c fc r w rule: convertVideo_cases)
  case (failed_early e)
  then show ?thesis
    by (intro exI [of _ "mark_error fc"]) (simp add: mark_error_terminal)
next
  case (failed_converting e)
  then show ?thesis
    by (intro exI [of _ "\<lambda>x. mark_error fc (mark_converting fc x)"])
      (simp add: mark_error_terminal local_to_def)
next
  case (failed_cleanup e)
  then show ?thesis
    by (intro exI [of _ "\<lambda>x. mark_error fc (mark_completed fc (freshUrl w) (mark_converting fc x))"])
      (simp add: mark_error_terminal local_to_def)
next
  case finished
  then show ?thesis
    by (intro exI [of _ "\<lambda>x. mark_completed fc (freshUrl w) (mark_converting fc x)"])
      (simp add: mark_completed_terminal local_to_def)
qed

subsection \<open>The loop of onDrop\<close>

lemma convertAll_Nil [simp]: "convertAll c env [] w = w"
  by (simp add: convertAll_def)

lemma convertAll_Cons [simp]:
  "convertAll c env (fc # fcs) w = convertAll c env fcs (convertVideo c fc (env (fileOf fc)) w)"
  by (simp add: convertAll_def)

lemma onDrop_convertAll:
  "onDrop c acceptedFiles env w =
     convertAll c env (map newFile (filesToProcess c acceptedFiles))
       (setUploadedFiles (\<lambda>prev. prev @ map newFile (filesToProcess c acceptedFiles)) w)"
  by (simp add: onDrop_def convertAll_def Let_def)

lemma filesToProcess_take: "\<exists>k. filesToProcess c acceptedFiles = take k acceptedFiles"
  by (auto simp: filesToProcess_def slice0_def Let_def)

lemma distinct_filesToProcess:
  "distinct acceptedFiles \<Longrightarrow> distinct (filesToProcess c acceptedFiles)"
  using filesToProcess_take [of c acceptedFiles] by (auto simp: distinct_take)

lemma fileOf_newFile [simp]: "fileOf (newFile f) = f"
  by (simp add: newFile_def)

lemma status_newFile [simp]: "status (newFile f) = S_pending"
  by (simp add: newFile_def)

subsection \<open>Order of processing\<close>

lemma batch_mid_order: "batch_mid n batch d jobs \<Longrightarrow> in_submission_order n (length batch) jobs"
  unfolding batch_mid_def in_submission_order_def
  by (metis less_trans linorder_neqE_nat)

lemma batch_mid_files: "batch_mid n batch d jobs \<Longrightarrow> map fileOf (drop n jobs) = batch"
  unfolding batch_mid_def by (auto intro!: nth_equalityI)

lemma batch_state_step:
  assumes st: "batch_state n batch d jobs" and dist: "distinct batch" and d: "d < length batch"
    and g: "local_to (batch ! d) g"
  shows "batch_mid n batch d (map g jobs)"
    and "(\<And>x. fileOf x = batch ! d \<Longrightarrow> terminal (status (g x)))
           \<Longrightarrow> batch_state n batch (Suc d) (map g jobs)"
proof -
  from st have len: "length jobs = n + length batch"
    and files: "\<And>i. i < length batch \<Longrightarrow> fileOf (jobs ! (n + i)) = batch ! i"
    and before: "\<And>i. i < d \<Longrightarrow> terminal (status (jobs ! (n + i)))"
    and behind: "\<And>i. d \<le> i \<Longrightarrow> i < length batch \<Longrightarrow> status (jobs ! (n + i)) = S_pending"
    unfolding batch_state_def batch_mid_def by (auto simp: le_less)
  have nth: "\<And>i. i < length batch \<Longrightarrow> map g jobs ! (n + i) = g (jobs ! (n + i))"
    by (simp add: len)
  have other: "\<And>i. i < length batch \<Longrightarrow> i \<noteq> d \<Longrightarrow> g (jobs ! (n + i)) = jobs ! (n + i)"
  proof -
    fix i assume i: "i < length batch" "i \<noteq> d"
    then have "batch ! i \<noteq> batch ! d"
      using dist d by (simp add: nth_eq_iff_index_eq)
    then show "g (jobs ! (n + i)) = jobs ! (n + i)"
      using g files [OF i(1)] by (simp add: local_to_def)
  qed
  have keep: "\<And>i. i < length batch \<Longrightarrow> fileOf (g (jobs ! (n + i))) = batch ! i"
    using g files by (simp add: local_to_def)
  show mid: "batch_mid n batch d (map g jobs)"
    unfolding batch_mid_def
    using len nth keep other before behind d by (auto simp: less_imp_le)
  assume settle: "\<And>x. fileOf x = batch ! d \<Longrightarrow> terminal (status (g x))"
  have "terminal (status (g (jobs ! (n + d))))"
    using settle files [OF d] by simp
  then have t: "\<And>i. i < Suc d \<Longrightarrow> terminal (status (map g jobs ! (n + i)))"
    using nth other before d by (metis less_Suc_eq less_trans)
  have p: "\<And>i. Suc d \<le> i \<Longrightarrow> i < length batch \<Longrightarrow> status (map g jobs ! (n + i)) = S_pending"
    using nth other behind by (metis Suc_le_lessD less_imp_le_nat nat_neq_iff)
  have l: "length (map g jobs) = n + length batch"
    by (simp add: len)
  have fl: "\<And>i. i < length batch \<Longrightarrow> fileOf (map g jobs ! (n + i)) = batch ! i"
    using nth keep by simp
  show "batch_state n batch (Suc d) (map g jobs)"
    unfolding batch_state_def batch_mid_def
    using t p [OF less_imp_le] p [OF le_refl] l fl by blast
qed

lemma convertAll_in_order:
  assumes "distinct batch" and "batch_state n batch d (uploadedFiles w)"
    and "todo = map newFile (drop d batch)"
  shows "\<exists>ext. timeline (convertAll c env todo w) = timeline w @ ext \<and>
           (\<forall>s \<in> set ext. \<exists>d'. batch_mid n batch d' (fst s)) \<and>
           batch_state n batch (length batch) (uploadedFiles (convertAll c env todo w))"
  using assms
proof (induction todo arbitrary: d w)
  case Nil
  then have "length batch \<le> d" by simp
  with Nil.prems(2) have "batch_state n batch (length batch) (uploadedFiles w)"
    unfolding batch_state_def batch_mid_def by auto
  then show ?case by simp
next
  case (Cons fc rest)
  from Cons.prems(3) have d: "d < length batch"
    by (cases "d < length batch") auto
  then have dr: "drop d batch = batch ! d # drop (Suc d) batch"
    by (simp add: Cons_nth_drop_Suc)
  with Cons.prems(3) have fc: "fc = newFile (batch ! d)" and rest: "rest = map newFile (drop (Suc d) batch)"
    by simp_all
  let ?w1 = "convertVideo c fc (env (fileOf fc)) w"
  have f: "fileOf fc = batch ! d" by (simp add: fc)
  from convertVideo_evolves [of fc w c "env (fileOf fc)"]
  obtain ext1 where ext1: "timeline ?w1 = timeline w @ ext1"
    "\<forall>s \<in> set ext1. \<exists>g. local_to (batch ! d) g \<and> fst s = map g (uploadedFiles w)"
    unfolding evolves_def f by blast
  have mid1: "\<forall>s \<in> set ext1. \<exists>d'. batch_mid n batch d' (fst s)"
  proof
    fix s assume "s \<in> set ext1"
    with ext1(2) obtain g where "local_to (batch ! d) g" "fst s = map g (uploadedFiles w)"
      by blast
    with batch_state_step(1) [OF Cons.prems(2) Cons.prems(1) d]
    show "\<exists>d'. batch_mid n batch d' (fst s)" by auto
  qed
  from convertVideo_settles [of c fc "env (fileOf fc)" w]
  obtain g where g: "uploadedFiles ?w1 = map g (uploadedFiles w)" "local_to (batch ! d) g"
    "\<And>x. fileOf x = batch ! d \<Longrightarrow> terminal (status (g x))"
    unfolding f by blast
  have st1: "batch_state n batch (Suc d) (uploadedFiles ?w1)"
    unfolding g(1) by (rule batch_state_step(2) [OF Cons.prems(2) Cons.prems(1) d g(2) g(3)])
  from Cons.IH [OF Cons.prems(1) st1 rest]
  obtain ext2 where ext2: "timeline (convertAll c env rest ?w1) = timeline ?w1 @ ext2"
    "\<forall>s \<in> set ext2. \<exists>d'. batch_mid n batch d' (fst s)"
    "batch_state n batch (length batch) (uploadedFiles (convertAll c env rest ?w1))"
    by blast
  have "timeline (convertAll c env (fc # rest) w) = timeline w @ (ext1 @ ext2)"
    by (simp add: ext2(1) ext1(1))
  moreover have "\<forall>s \<in> set (ext1 @ ext2). \<exists>d'. batch_mid n batch d' (fst s)"
    using mid1 ext2(2) by auto
  ultimately show ?case
    using ext2(3) by (intro exI [of _ "ext1 @ ext2"]) simp
qed

lemma appended_batch_state:
  "batch_state (length jobs) batch 0 (jobs @ map newFile batch)"
  unfolding batch_state_def batch_mid_def by (auto simp: nth_append)

lemma onDrop_in_order:
  assumes "distinct acceptedFiles"
  shows "\<exists>ext. timeline (onDrop c acceptedFiles env w) = timeline w @ ext \<and>
           (\<forall>s \<in> set ext. \<exists>d'. batch_mid (length (uploadedFiles w))
                                  (filesToProcess c acceptedFiles) d' (fst s)) \<and>
           batch_state (length (uploadedFiles w)) (filesToProcess c acceptedFiles)
             (length (filesToProcess c acceptedFiles))
             (uploadedFiles (onDrop c acceptedFiles env w))"
proof -
  let ?batch = "filesToProcess c acceptedFiles"
  let ?n = "length (uploadedFiles w)"
  let ?w1 = "setUploadedFiles (\<lambda>prev. prev @ map newFile ?batch) w"
  have dist: "distinct ?batch" using assms by (rule distinct_filesToProcess)
  have st: "batch_state ?n ?batch 0 (uploadedFiles ?w1)"
    by (simp add: appended_batch_state)
  from convertAll_in_order [OF dist st, of "map newFile ?batch" c env]
  obtain ext where ext: "timeline (convertAll c env (map newFile ?batch) ?w1) = timeline ?w1 @ ext"
    "\<forall>s \<in> set ext. \<exists>d'. batch_mid ?n ?batch d' (fst s)"
    "batch_state ?n ?batch (length ?batch) (uploadedFiles (convertAll c env (map newFile ?batch) ?w1))"
    by auto
  let ?first = "(uploadedFiles w @ map newFile ?batch, conversionState w)"
  have "batch_mid ?n ?batch 0 (fst ?first)"
    using appended_batch_state [of "uploadedFiles w" ?batch] by (simp add: batch_state_def)
  then have "\<forall>s \<in> set (?first # ext). \<exists>d'. batch_mid ?n ?batch d' (fst s)"
    using ext(2) by auto
  moreover have "timeline (onDrop c acceptedFiles env w) = timeline w @ (?first # ext)"
    by (simp add: onDrop_convertAll ext(1))
  ultimately show ?thesis
    using ext(3) by (intro exI [of _ "?first # ext"]) (simp add: onDrop_convertAll)
qed

text \<open>
  Claim C8. The jobs of a batch are processed one at a time in submission order. In
  every snapshot that \<open>onDrop\<close> appends to the timeline the new jobs are the files of the
  batch in input order, a new job that has left \<open>pending\<close> has only terminal jobs of the
  batch before it, and so has a new job that is terminal; at the end of \<open>onDrop\<close> every
  new job is terminal.
\<close>

theorem jobs_are_processed_in_submission_order:
  assumes "distinct acceptedFiles"
  shows "(\<forall>s \<in> set (added (timeline w) (timeline (onDrop c acceptedFiles env w))).
            map fileOf (drop (length (uploadedFiles w)) (fst s)) = filesToProcess c acceptedFiles \<and>
            in_submission_order (length (uploadedFiles w))
              (length (filesToProcess c acceptedFiles)) (fst s) \<and>
            (\<forall>j k. j < k \<and> k < length (filesToProcess c acceptedFiles) \<and>
                   terminal (status (fst s ! (length (uploadedFiles w) + k)))
               \<longrightarrow> terminal (status (fst s ! (length (uploadedFiles w) + j)))))
       \<and> (\<forall>k < length (filesToProcess c acceptedFiles).
            terminal (status (uploadedFiles (onDrop c acceptedFiles env w)
                                ! (length (uploadedFiles w) + k))))"
proof -
  let ?batch = "filesToProcess c acceptedFiles"
  let ?n = "length (uploadedFiles w)"
  from onDrop_in_order [OF assms, of c env w]
  obtain ext where ext: "timeline (onDrop c acceptedFiles env w) = timeline w @ ext"
    "\<forall>s \<in> set ext. \<exists>d'. batch_mid ?n ?batch d' (fst s)"
    "batch_state ?n ?batch (length ?batch) (uploadedFiles (onDrop c acceptedFiles env w))"
    by blast
  have snaps: "added (timeline w) (timeline (onDrop c acceptedFiles env w)) = ext"
    by (simp add: added_def ext(1))
  have "map fileOf (drop ?n (fst s)) = ?batch \<and> in_submission_order ?n (length ?batch) (fst s) \<and>
        (\<forall>j k. j < k \<and> k < length ?batch \<and> terminal (status (fst s ! (?n + k)))
           \<longrightarrow> terminal (status (fst s ! (?n + j))))"
    if "s \<in> set ext" for s
  proof -
    from that ext(2) obtain d' where mid: "batch_mid ?n ?batch d' (fst s)" by blast
    then have ord: "in_submission_order ?n (length ?batch) (fst s)"
      by (rule batch_mid_order)
    have "terminal (status (fst s ! (?n + j)))"
      if "j < k" "k < length ?batch" "terminal (status (fst s ! (?n + k)))" for j k
    proof -
      from that(3) have "status (fst s ! (?n + k)) \<noteq> S_pending"
        by (auto simp: terminal_def)
      with ord that(1,2) show ?thesis
        unfolding in_submission_order_def by blast
    qed
    with mid ord show ?thesis
      by (auto simp: batch_mid_files)
  qed
  moreover have "\<forall>k < length ?batch.
      terminal (status (uploadedFiles (onDrop c acceptedFiles env w) ! (?n + k)))"
    using ext(3) unfolding batch_state_def batch_mid_def by blast
  ultimately show ?thesis
    unfolding snaps by blast
qed

theorem jobs_are_processed_in_submission_order_witness:
  "distinct [fileA, fileB]
   \<and> ([(newFile fileA)\<lparr>status := S_converting\<rparr>, newFile fileB], loadingState)
       \<in> set (added (timeline initialWorld)
            (timeline (onDrop (render initialWorld) [fileA, fileB] (\<lambda>_. okRun) initialWorld)))
   \<and> in_submission_order 0 2 [(newFile fileA)\<lparr>status := S_converting\<rparr>, newFile fileB]
   \<and> terminal (status (uploadedFiles
         (onDrop (render initialWorld) [fileA, fileB] (\<lambda>_. okRun) initialWorld) ! 1))"
proof -
  have d: "distinct [fileA, fileB]"
    by (simp add: fileA_def fileB_def)
  have m: "([(newFile fileA)\<lparr>status := S_converting\<rparr>, newFile fileB], loadingState)
       \<in> set (added (timeline initialWorld)
            (timeline (onDrop (render initialWorld) [fileA, fileB] (\<lambda>_. okRun) initialWorld)))"
    by (simp add: sym_defs stage_defs added_def completedState_def
        convertingState_def loadingState_def idleState_def onProgress_def)
  have b: "filesToProcess (render initialWorld) [fileA, fileB] = [fileA, fileB]"
    by (simp add: filesToProcess_def slice0_def render_def initialWorld_def)
  have n: "length (uploadedFiles initialWorld) = 0"
    by (simp add: initialWorld_def)
  note inst = jobs_are_processed_in_submission_order [OF d, of initialWorld "render initialWorld"
      "\<lambda>_. okRun", unfolded b n]
  have k: "(1::nat) < length [fileA, fileB]"
    by simp
  from inst have "in_submission_order 0 (length [fileA, fileB])
      (fst ([(newFile fileA)\<lparr>status := S_converting\<rparr>, newFile fileB], loadingState))"
    using m by blast
  then have o: "in_submission_order 0 2 [(newFile fileA)\<lparr>status := S_converting\<rparr>, newFile fileB]"
    by (simp add: numeral_2_eq_2)
  from inst k have "terminal (status (uploadedFiles
         (onDrop (render initialWorld) [fileA, fileB] (\<lambda>_. okRun) initialWorld) ! (0 + 1)))"
    by blast
  with d m o show ?thesis
    by simp
qed

subsection \<open>Failure of one conversion\<close>

lemma mark_error_same:
  "fileOf x = fileOf fc \<Longrightarrow>
     status (mark_error fc x) = S_error \<and> error (mark_error fc x) = Some ''Conversion failed''"
  by (simp add: mark_error_def)

lemma mark_completed_same:
  "fileOf x = fileOf fc \<Longrightarrow> status (mark_completed fc u x) = S_completed"
  by (simp add: mark_completed_def)

lemma failed_conversion_marks_job:
  assumes "fst (convertVideo_try c fc r w) = Inl e"
  shows "\<exists>g. uploadedFiles (convertVideo c fc r w) = map g (uploadedFiles w) \<and>
           (\<forall>x. fileOf (g x) = fileOf x \<and>
                (if fileOf x = fileOf fc
                 then status (g x) = S_error \<and> error (g x) = Some ''Conversion failed''
                 else g x = x))"
proof (cases c fc r w rule: convertVideo_cases)
  case (failed_early e)
  then show ?thesis
    by (intro exI [of _ "mark_error fc"]) (simp add: mark_error_same)
next
  case (failed_converting e)
  then show ?thesis
    by (intro exI [of _ "\<lambda>x. mark_error fc (mark_converting fc x)"])
      (simp add: mark_error_same)
next
  case (failed_cleanup e)
  then show ?thesis
    by (intro exI [of _ "\<lambda>x. mark_error fc (mark_completed fc (freshUrl w) (mark_converting fc x))"])
      (simp add: mark_error_same)
next
  case finished
  with assms show ?thesis by simp
qed

lemma try_succeeds_iff:
  "fst (convertVideo_try c fc r w) = Inr () \<longleftrightarrow>
     \<not> init_fails r w \<and> fetch_result r = None \<and> write_result r = None \<and>
     exec_result r = None \<and> read_result r = None \<and> delete_in_result r = None \<and>
     delete_out_result r = None"
  by (simp add: convertVideo_try_eq)

lemma run_fails_try:
  assumes "run_fails r"
  shows "\<exists>e. fst (convertVideo_try c fc r w) = Inl e"
proof -
  from assms have "fst (convertVideo_try c fc r w) \<noteq> Inr ()"
    unfolding try_succeeds_iff run_fails_def by blast
  then show ?thesis
    by (cases "fst (convertVideo_try c fc r w)") simp_all
qed

lemma run_ok_convertVideo: "run_ok r \<Longrightarrow> convertVideo c fc r w = at_finished c fc r w"
  by (simp add: convertVideo_eq run_ok_def init_fails_def)

lemma run_fails_jobs:
  assumes "run_fails r" and "x \<in> set (uploadedFiles (convertVideo c fc r w))"
    and "fileOf x = fileOf fc"
  shows "status x = S_error \<and> error x = Some ''Conversion failed''"
proof -
  from run_fails_try [OF assms(1)] obtain e where "fst (convertVideo_try c fc r w) = Inl e" ..
  from failed_conversion_marks_job [OF this]
  obtain g where g: "uploadedFiles (convertVideo c fc r w) = map g (uploadedFiles w)"
    and all: "\<forall>y. fileOf (g y) = fileOf y \<and>
          (if fileOf y = fileOf fc
           then status (g y) = S_error \<and> error (g y) = Some ''Conversion failed''
           else g y = y)"
    by blast
  from assms(2) g obtain y where y: "x = g y" by auto
  from all have "fileOf (g y) = fileOf y \<and>
          (if fileOf y = fileOf fc
           then status (g y) = S_error \<and> error (g y) = Some ''Conversion failed''
           else g y = y)" ..
  with assms(3) y show ?thesis by simp
qed

lemma run_ok_jobs:
  assumes "run_ok r" and "x \<in> set (uploadedFiles (convertVideo c fc r w))"
    and "fileOf x = fileOf fc"
  shows "status x = S_completed"
proof -
  from assms(1,2) obtain y where y: "x = mark_completed fc (freshUrl w) (mark_converting fc y)"
    by (auto simp: run_ok_convertVideo)
  with assms(3) have "fileOf (mark_converting fc y) = fileOf fc" by simp
  then show ?thesis
    unfolding y by (rule mark_completed_same)
qed

subsection \<open>Failure inside a batch\<close>

lemma convertVideo_other_file:
  assumes "fileOf fc \<noteq> f" and "x \<in> set (uploadedFiles (convertVideo c fc r w))" and "fileOf x = f"
  shows "x \<in> set (uploadedFiles w)"
proof -
  from convertVideo_settles [of c fc r w]
  obtain g where g: "uploadedFiles (convertVideo c fc r w) = map g (uploadedFiles w)"
    "local_to (fileOf fc) g" by blast
  from assms(2) g(1) obtain y where y: "y \<in> set (uploadedFiles w)" "x = g y" by auto
  from g(2) have "fileOf (g y) = fileOf y" and "fileOf y \<noteq> fileOf fc \<Longrightarrow> g y = y"
    unfolding local_to_def by blast+
  with y assms(1,3) have "g y = y" by simp
  with y show ?thesis by simp
qed

lemma convertAll_other_files:
  assumes "f \<notin> fileOf ` set todo" and "x \<in> set (uploadedFiles (convertAll c env todo w))"
    and "fileOf x = f"
  shows "x \<in> set (uploadedFiles w)"
  using assms
proof (induction todo arbitrary: w)
  case Nil
  then show ?case by simp
next
  case (Cons fc rest)
  from Cons.prems(1) have "f \<notin> fileOf ` set rest" and neq: "fileOf fc \<noteq> f" by auto
  from Cons.IH [OF this(1) _ Cons.prems(3)] Cons.prems(2)
  have "x \<in> set (uploadedFiles (convertVideo c fc (env (fileOf fc)) w))" by simp
  from convertVideo_other_file [OF neq this Cons.prems(3)] show ?case .
qed

lemma convertVideo_terminal:
  assumes "x \<in> set (uploadedFiles (convertVideo c fc r w))" and "fileOf x = fileOf fc"
  shows "terminal (status x)"
proof -
  from convertVideo_settles [of c fc r w]
  obtain g where g: "uploadedFiles (convertVideo c fc r w) = map g (uploadedFiles w)"
    "local_to (fileOf fc) g" "\<And>y. fileOf y = fileOf fc \<Longrightarrow> terminal (status (g y))" by blast
  from assms(1) g(1) obtain y where y: "y \<in> set (uploadedFiles w)" "x = g y" by auto
  from g(2) have "fileOf (g y) = fileOf y"
    unfolding local_to_def by blast
  with y assms(2) have "fileOf y = fileOf fc" by simp
  from g(3) [OF this] y show ?thesis by simp
qed

lemma convertAll_terminal:
  assumes "x \<in> set (uploadedFiles (convertAll c env todo w))"
    and "fileOf x \<in> fileOf ` set todo"
  shows "terminal (status x)"
  using assms
proof (induction todo arbitrary: w)
  case Nil
  then show ?case by simp
next
  case (Cons fc rest)
  let ?w1 = "convertVideo c fc (env (fileOf fc)) w"
  from Cons.prems(1) have x: "x \<in> set (uploadedFiles (convertAll c env rest ?w1))" by simp
  show ?case
  proof (cases "fileOf x \<in> fileOf ` set rest")
    case True
    with Cons.IH x show ?thesis by blast
  next
    case False
    with Cons.prems(2) have same: "fileOf x = fileOf fc" by auto
    from convertAll_other_files [OF False x refl] have "x \<in> set (uploadedFiles ?w1)" .
    then show ?thesis using same by (rule convertVideo_terminal)
  qed
qed

lemma convertAll_outcome:
  assumes "distinct (map fileOf todo)" and "x \<in> set (uploadedFiles (convertAll c env todo w))"
    and "fileOf x \<in> fileOf ` set todo"
  shows "(run_fails (env (fileOf x)) \<longrightarrow> status x = S_error \<and> error x = Some ''Conversion failed'')
       \<and> (run_ok (env (fileOf x)) \<longrightarrow> status x = S_completed)"
  using assms
proof (induction todo arbitrary: w)
  case Nil
  then show ?case by simp
next
  case (Cons fc rest)
  let ?w1 = "convertVideo c fc (env (fileOf fc)) w"
  from Cons.prems(2) have x: "x \<in> set (uploadedFiles (convertAll c env rest ?w1))" by simp
  from Cons.prems(1) have dist: "distinct (map fileOf rest)" and fresh: "fileOf fc \<notin> fileOf ` set rest"
    by auto
  show ?case
  proof (cases "fileOf x = fileOf fc")
    case True
    with fresh have "fileOf x \<notin> fileOf ` set rest" by simp
    from convertAll_other_files [OF this x refl] have "x \<in> set (uploadedFiles ?w1)" .
    with True show ?thesis
      using run_fails_jobs [of "env (fileOf fc)" x c fc w] run_ok_jobs [of "env (fileOf fc)" x c fc w]
      by auto
  next
    case False
    with Cons.prems(3) have "fileOf x \<in> fileOf ` set rest" by auto
    from Cons.IH [OF dist x this] show ?thesis .
  qed
qed

lemma set_map_newFile: "fileOf ` set (map newFile files) = set files"
  by (induction files) auto

lemma map_fileOf_newFile: "map fileOf (map newFile files) = files"
  by (induction files) auto

text \<open>
  Claim C5. A conversion failure is local to its job. When the \<open>try\<close> block of a
  conversion raises, whatever the error \<open>e\<close>, the jobs of its file get the status
  \<open>error\<close> and the fixed text \<open>Conversion failed\<close>, and every other job is left as it was.
  The loop of \<open>onDrop\<close> goes on: at its end every job of the batch is terminal, and for a
  batch of distinct files a job whose engine run rejects somewhere is failed with the
  fixed text while a job whose engine run is clean is completed, wherever the failed
  jobs are in the batch.
\<close>

theorem conversion_failure_is_local:
  "(fst (convertVideo_try c fc r w) = Inl e \<longrightarrow>
      list_all2 (\<lambda>x y. fileOf y = fileOf x \<and>
                   (if fileOf x = fileOf fc
                    then status y = S_error \<and> error y = Some ''Conversion failed''
                    else y = x))
        (uploadedFiles w) (uploadedFiles (convertVideo c fc r w)))
   \<and> (\<forall>x \<in> set (uploadedFiles (onDrop c acceptedFiles env w)).
        fileOf x \<in> set (filesToProcess c acceptedFiles) \<longrightarrow>
          terminal (status x) \<and>
          (distinct acceptedFiles \<and> run_fails (env (fileOf x)) \<longrightarrow>
             status x = S_error \<and> error x = Some ''Conversion failed'') \<and>
          (distinct acceptedFiles \<and> run_ok (env (fileOf x)) \<longrightarrow> status x = S_completed))"
proof (intro conjI impI ballI)
  assume "fst (convertVideo_try c fc r w) = Inl e"
  from failed_conversion_marks_job [OF this]
  obtain g where g: "uploadedFiles (convertVideo c fc r w) = map g (uploadedFiles w)"
    "\<And>x. fileOf (g x) = fileOf x \<and>
          (if fileOf x = fileOf fc
           then status (g x) = S_error \<and> error (g x) = Some ''Conversion failed''
           else g x = x)"
    by blast
  show "list_all2 (\<lambda>x y. fileOf y = fileOf x \<and>
                   (if fileOf x = fileOf fc
                    then status y = S_error \<and> error y = Some ''Conversion failed''
                    else y = x))
        (uploadedFiles w) (uploadedFiles (convertVideo c fc r w))"
    unfolding g(1) list_all2_map2 using g(2) by (simp add: list_all2_same)
next
  fix x
  assume x: "x \<in> set (uploadedFiles (onDrop c acceptedFiles env w))"
    and f: "fileOf x \<in> set (filesToProcess c acceptedFiles)"
  let ?todo = "map newFile (filesToProcess c acceptedFiles)"
  from f have f': "fileOf x \<in> fileOf ` set ?todo"
    by (simp only: set_map_newFile)
  from x show "terminal (status x)"
    unfolding onDrop_convertAll using f' by (rule convertAll_terminal)
  {
    assume "distinct acceptedFiles \<and> run_fails (env (fileOf x))"
    then have d: "distinct (map fileOf ?todo)" and rf: "run_fails (env (fileOf x))"
      by (simp_all only: map_fileOf_newFile distinct_filesToProcess)
    from convertAll_outcome [OF d x [unfolded onDrop_convertAll] f'] rf
    show "status x = S_error" and "error x = Some ''Conversion failed''" by simp_all
  }
  assume "distinct acceptedFiles \<and> run_ok (env (fileOf x))"
  then have d: "distinct (map fileOf ?todo)" and ro: "run_ok (env (fileOf x))"
    by (simp_all only: map_fileOf_newFile distinct_filesToProcess)
  from convertAll_outcome [OF d x [unfolded onDrop_convertAll] f'] ro
  show "status x = S_completed" by simp
qed

theorem conversion_failure_is_local_witness:
  "fst (convertVideo_try (render initialWorld) (newFile fileB) failRun
          (setUploadedFiles (\<lambda>prev. prev @ [newFile fileA, newFile fileB]) initialWorld))
     = Inl ''Invalid data found when processing input''
   \<and> list_all2 (\<lambda>x y. fileOf y = fileOf x \<and>
                   (if fileOf x = fileOf (newFile fileB)
                    then status y = S_error \<and> error y = Some ''Conversion failed''
                    else y = x))
        [newFile fileA, newFile fileB]
        (uploadedFiles (convertVideo (render initialWorld) (newFile fileB) failRun
           (setUploadedFiles (\<lambda>prev. prev @ [newFile fileA, newFile fileB]) initialWorld)))
   \<and> distinct [fileA, fileB, fileC]
   \<and> run_fails ((\<lambda>f. if f = fileB then failRun else okRun) fileB)
   \<and> run_ok ((\<lambda>f. if f = fileB then failRun else okRun) fileC)
   \<and> map (\<lambda>x. (name (fileOf x), status x, error x))
        (uploadedFiles (onDrop (render initialWorld) [fileA, fileB, fileC]
           (\<lambda>f. if f = fileB then failRun else okRun) initialWorld))
       = [(''a.mkv'', S_completed, None), (''b.avi'', S_error, Some ''Conversion failed''),
          (''c.mov'', S_completed, None)]"
proof -
  let ?w = "setUploadedFiles (\<lambda>prev. prev @ [newFile fileA, newFile fileB]) initialWorld"
  have a: "fst (convertVideo_try (render initialWorld) (newFile fileB) failRun ?w)
             = Inl ''Invalid data found when processing input''"
    by (simp add: convertVideo_try_eq failRun_def okRun_def init_fails_def)
  have u: "uploadedFiles ?w = [newFile fileA, newFile fileB]"
    by (simp add: initialWorld_def)
  from conversion_failure_is_local [of "render initialWorld" "newFile fileB" failRun ?w
      "''Invalid data found when processing input''"] a
  have b: "list_all2 (\<lambda>x y. fileOf y = fileOf x \<and>
                   (if fileOf x = fileOf (newFile fileB)
                    then status y = S_error \<and> error y = Some ''Conversion failed''
                    else y = x))
        [newFile fileA, newFile fileB]
        (uploadedFiles (convertVideo (render initialWorld) (newFile fileB) failRun ?w))"
    unfolding u by blast
  have d: "distinct [fileA, fileB, fileC]"
    by (simp add: fileA_def fileB_def fileC_def)
  have rf: "run_fails ((\<lambda>f. if f = fileB then failRun else okRun) fileB)"
    by (simp add: run_fails_def failRun_def)
  have ro: "run_ok ((\<lambda>f. if f = fileB then failRun else okRun) fileC)"
    by (simp add: run_ok_def okRun_def fileB_def fileC_def)
  have e: "map (\<lambda>x. (name (fileOf x), status x, error x))
        (uploadedFiles (onDrop (render initialWorld) [fileA, fileB, fileC]
           (\<lambda>f. if f = fileB then failRun else okRun) initialWorld))
       = [(''a.mkv'', S_completed, None), (''b.avi'', S_error, Some ''Conversion failed''),
          (''c.mov'', S_completed, None)]"
    by (simp add: sym_defs)
  from a b d rf ro e show ?thesis
    by (intro conjI)
qed

subsection \<open>The other handlers, field by field\<close>

lemma revokeObjectURL_fields [simp]:
  "uploadedFiles (revokeObjectURL u w) = uploadedFiles w"
  "timeline (revokeObjectURL u w) = timeline w"
  "conversionState (revokeObjectURL u w) = conversionState w"
  "outputFormat (revokeObjectURL u w) = outputFormat w"
  "ffmpegRef (revokeObjectURL u w) = ffmpegRef w"
  "urlCounter (revokeObjectURL u w) = urlCounter w"
  "revoked (revokeObjectURL u w) = revoked w @ [u]"
  "execLog (revokeObjectURL u w) = execLog w"
  "downloads (revokeObjectURL u w) = downloads w"
  "console (revokeObjectURL u w) = console w"
  by (simp_all add: revokeObjectURL_def)

lemma revokeAll_fields [simp]:
  "uploadedFiles (revokeAll fcs w) = uploadedFiles w"
  "timeline (revokeAll fcs w) = timeline w"
  "conversionState (revokeAll fcs w) = conversionState w"
  "outputFormat (revokeAll fcs w) = outputFormat w"
  "ffmpegRef (revokeAll fcs w) = ffmpegRef w"
  "urlCounter (revokeAll fcs w) = urlCounter w"
  "execLog (revokeAll fcs w) = execLog w"
  "downloads (revokeAll fcs w) = downloads w"
  "console (revokeAll fcs w) = console w"
  by (induction fcs arbitrary: w; simp)+

lemma resetConverter_fields [simp]:
  "uploadedFiles (resetConverter c w) = []"
  "conversionState (resetConverter c w) = idleState"
  "outputFormat (resetConverter c w) = outputFormat w"
  "ffmpegRef (resetConverter c w) = ffmpegRef w"
  "urlCounter (resetConverter c w) = urlCounter w"
  "revoked (resetConverter c w) = revoked (revokeAll (c_uploadedFiles c) w)"
  "execLog (resetConverter c w) = execLog w"
  "downloads (resetConverter c w) = downloads w"
  by (simp_all add: resetConverter_def Let_def)

lemma downloadVideo_fields [simp]:
  "uploadedFiles (downloadVideo c fc w) = uploadedFiles w"
  "timeline (downloadVideo c fc w) = timeline w"
  "conversionState (downloadVideo c fc w) = conversionState w"
  "outputFormat (downloadVideo c fc w) = outputFormat w"
  "ffmpegRef (downloadVideo c fc w) = ffmpegRef w"
  "urlCounter (downloadVideo c fc w) = urlCounter w"
  "revoked (downloadVideo c fc w) = revoked w"
  "execLog (downloadVideo c fc w) = execLog w"
  by (simp_all add: downloadVideo_def Let_def)

lemma setOutputFormat_fields [simp]:
  "uploadedFiles (setOutputFormat v w) = uploadedFiles w"
  "timeline (setOutputFormat v w) = timeline w"
  "conversionState (setOutputFormat v w) = conversionState w"
  "outputFormat (setOutputFormat v w) = v"
  "ffmpegRef (setOutputFormat v w) = ffmpegRef w"
  "urlCounter (setOutputFormat v w) = urlCounter w"
  "revoked (setOutputFormat v w) = revoked w"
  "execLog (setOutputFormat v w) = execLog w"
  by (simp_all add: setOutputFormat_def)

lemma render_fields [simp]:
  "c_outputFormat (render w) = outputFormat w"
  "c_uploadedFiles (render w) = uploadedFiles w"
  by (simp_all add: render_def)

lemma convertAll_unchanged [simp]:
  "revoked (convertAll c env todo w) = revoked w"
  "outputFormat (convertAll c env todo w) = outputFormat w"
  "downloads (convertAll c env todo w) = downloads w"
  by (induction todo arbitrary: w; simp)+

lemma onDrop_unchanged [simp]:
  "revoked (onDrop c acceptedFiles env w) = revoked w"
  "outputFormat (onDrop c acceptedFiles env w) = outputFormat w"
  "downloads (onDrop c acceptedFiles env w) = downloads w"
  by (simp_all add: onDrop_convertAll)

subsection \<open>The capacity of the queue\<close>



lemma filesToProcess_current:
  assumes "length (uploadedFiles w) \<le> 5"
  shows "filesToProcess (render w) acceptedFiles =
           take (min (length acceptedFiles) (5 - length (uploadedFiles w))) acceptedFiles"
proof -
  have "nat (5 - int (length (uploadedFiles w))) = 5 - length (uploadedFiles w)"
    by simp
  with assms show ?thesis
    by (simp add: filesToProcess_def slice0_def Let_def min_def)
qed


lemma run_events_snoc: "run_events (evs @ [ev]) = step (run_events evs) ev"
  by (simp add: run_events_def)


lemma map_fileOf_comp_newFile [simp]: "map (fileOf \<circ> newFile) files = files"
  by (induction files) auto






subsection \<open>Object URLs are never issued twice\<close>

lemma digit_inj: "a < 10 \<Longrightarrow> b < 10 \<Longrightarrow> digit a = digit b \<Longrightarrow> a = b"
proof -
  have cases: "k < 10 \<Longrightarrow> k = 0 \<or> k = 1 \<or> k = 2 \<or> k = 3 \<or> k = 4 \<or> k = 5 \<or> k = 6 \<or> k = 7
      \<or> k = 8 \<or> k = 9" for k :: nat
    by arith
  assume "a < 10" "b < 10" "digit a = digit b"
  with cases [of a] cases [of b] show "a = b"
    by (auto simp: digit_def)
qed

lemma show_nat_not_Nil: "show_nat n \<noteq> []"
  by (subst show_nat.simps) simp

lemma show_nat_inj: "show_nat m = show_nat n \<Longrightarrow> m = n"
proof (induction m arbitrary: n rule: show_nat.induct)
  case (1 m)
  show ?case
  proof (cases "m < 10")
    case True
    then have m: "show_nat m = [digit m]" by (subst show_nat.simps) simp
    show ?thesis
    proof (cases "n < 10")
      case n: True
      then have "show_nat n = [digit n]" by (subst show_nat.simps) simp
      with m "1.prems" have "digit m = digit n" by simp
      with True n show ?thesis by (rule digit_inj)
    next
      case False
      then have "show_nat n = show_nat (n div 10) @ [digit (n mod 10)]"
        by (subst show_nat.simps) simp
      with m "1.prems" have "show_nat (n div 10) = []" by simp
      with show_nat_not_Nil show ?thesis by blast
    qed
  next
    case False
    then have m: "show_nat m = show_nat (m div 10) @ [digit (m mod 10)]"
      by (subst show_nat.simps) simp
    show ?thesis
    proof (cases "n < 10")
      case True
      then have "show_nat n = [digit n]" by (subst show_nat.simps) simp
      with m "1.prems" have "show_nat (m div 10) = []" by simp
      with show_nat_not_Nil show ?thesis by blast
    next
      case n: False
      then have "show_nat n = show_nat (n div 10) @ [digit (n mod 10)]"
        by (subst show_nat.simps) simp
      with m "1.prems" have eq: "show_nat (m div 10) = show_nat (n div 10)"
        and d: "digit (m mod 10) = digit (n mod 10)" by simp_all
      from "1.IH" [OF False eq] have "m div 10 = n div 10" .
      moreover from d have "m mod 10 = n mod 10"
        by (intro digit_inj) simp_all
      ultimately show ?thesis
        by (metis div_mult_mod_eq)
    qed
  qed
qed

lemma blobUrl_inj [simp]: "blobUrl m = blobUrl n \<longleftrightarrow> m = n"
  by (auto simp: blobUrl_def dest: show_nat_inj)

lemma blobUrl_truthy [simp]: "truthy (Some (blobUrl k))"
  by (simp add: truthy_def blobUrl_def)

lemma freshUrl_blobUrl: "freshUrl w = blobUrl (urlCounter w)"
  by (simp add: freshUrl_def blobUrl_def)

subsection \<open>The handles held by the jobs\<close>

lemma held_urls_append [simp]: "held_urls (xs @ ys) = held_urls xs @ held_urls ys"
  by (induction xs) (auto split: option.splits)

lemma held_urls_map_same:
  "(\<And>x. downloadUrl (g x) = downloadUrl x) \<Longrightarrow> held_urls (map g xs) = held_urls xs"
  by (induction xs) (auto split: option.splits)

lemma held_urls_newFiles [simp]: "held_urls (map newFile files) = []"
  by (induction files) (auto simp: newFile_def)

lemma held_urls_mark_error [simp]: "held_urls (map (mark_error fc) xs) = held_urls xs"
  by (rule held_urls_map_same) (simp add: mark_error_def)

lemma held_urls_mark_converting [simp]: "held_urls (map (mark_converting fc) xs) = held_urls xs"
  by (rule held_urls_map_same) (simp add: mark_converting_def)

lemma map_fileOf_mark [simp]:
  "map fileOf (map (mark_error fc) xs) = map fileOf xs"
  "map fileOf (map (mark_converting fc) xs) = map fileOf xs"
  "map fileOf (map (mark_completed fc u) xs) = map fileOf xs"
  by (induction xs) auto

lemma map_fileOf_comp_mark [simp]:
  "map (fileOf \<circ> mark_error fc) xs = map fileOf xs"
  "map (fileOf \<circ> mark_converting fc) xs = map fileOf xs"
  "map (fileOf \<circ> mark_completed fc u) xs = map fileOf xs"
  by (induction xs) auto

lemma mark_completed_url:
  "fileOf x = fileOf fc \<Longrightarrow> downloadUrl (mark_completed fc u x) = Some u"
  by (simp add: mark_completed_def)

lemma mark_completed_absent:
  "fileOf fc \<notin> fileOf ` set xs \<Longrightarrow> map (mark_completed fc u) xs = xs"
  by (induction xs) auto

lemma held_urls_mark_completed_subset:
  "set (held_urls (map (mark_completed fc u) xs)) \<subseteq> insert u (set (held_urls xs))"
  by (induction xs) (auto simp: mark_completed_def split: option.splits)

lemma held_urls_mark_completed_distinct:
  assumes "distinct (map fileOf xs)" and "u \<notin> set (held_urls xs)" and "distinct (held_urls xs)"
  shows "distinct (held_urls (map (mark_completed fc u) xs))"
  using assms
proof (induction xs)
  case Nil
  then show ?case by simp
next
  case (Cons x xs)
  show ?case
  proof (cases "fileOf x = fileOf fc")
    case True
    with Cons.prems(1) have "fileOf fc \<notin> fileOf ` set xs" by auto
    then have rest: "map (mark_completed fc u) xs = xs" by (rule mark_completed_absent)
    from Cons.prems(2,3) have "u \<notin> set (held_urls xs)" "distinct (held_urls xs)"
      by (auto split: option.splits)
    with True rest show ?thesis
      by (simp add: mark_completed_url)
  next
    case False
    from Cons.prems have ih: "distinct (held_urls (map (mark_completed fc u) xs))"
      by (intro Cons.IH) (auto split: option.splits)
    show ?thesis
    proof (cases "downloadUrl x")
      case None
      with False ih show ?thesis by simp
    next
      case (Some v)
      with Cons.prems(2,3) have "v \<noteq> u" "v \<notin> set (held_urls xs)" by auto
      with held_urls_mark_completed_subset [of fc u xs]
      have "v \<notin> set (held_urls (map (mark_completed fc u) xs))" by auto
      with False Some ih show ?thesis by simp
    qed
  qed
qed

lemma revokeAll_revoked:
  "(\<And>u. u \<in> set (held_urls fcs) \<Longrightarrow> truthy (Some u))
     \<Longrightarrow> revoked (revokeAll fcs w) = revoked w @ held_urls fcs"
proof (induction fcs arbitrary: w)
  case Nil
  then show ?case by simp
next
  case (Cons fc fcs)
  show ?case
  proof (cases "downloadUrl fc")
    case None
    with Cons show ?thesis by (simp add: truthy_def)
  next
    case (Some u)
    with Cons.prems have "truthy (Some u)" by simp
    with Some Cons show ?thesis by simp
  qed
qed

subsection \<open>The handles stay in order through every move\<close>

lemma set_filesToProcess: "set (filesToProcess c acceptedFiles) \<subseteq> set acceptedFiles"
  using filesToProcess_take [of c acceptedFiles] by (auto dest: in_set_takeD)

lemma handles_ok_same:
  assumes "handles_ok files w"
    and "map fileOf (uploadedFiles w') = map fileOf (uploadedFiles w)"
    and "held_urls (uploadedFiles w') = held_urls (uploadedFiles w)"
    and "urlCounter w' = urlCounter w" and "revoked w' = revoked w"
  shows "handles_ok files w'"
  using assms unfolding handles_ok_def by simp

lemma handles_ok_dropped:
  assumes "handles_ok files w" and "distinct (files @ acceptedFiles)"
  shows "handles_ok (files @ acceptedFiles) (move w (Dropped acceptedFiles))"
proof -
  let ?batch = "filesToProcess (render w) acceptedFiles"
  from assms(2) have new: "distinct acceptedFiles"
    and apart: "set files \<inter> set acceptedFiles = {}"
    by auto
  from assms(1) have tracked: "set (map fileOf (uploadedFiles w)) \<subseteq> set files"
    and dist: "distinct (map fileOf (uploadedFiles w))"
    and rest: "\<forall>u \<in> set (held_urls (uploadedFiles w) @ revoked w). \<exists>k < urlCounter w. u = blobUrl k"
      "distinct (held_urls (uploadedFiles w) @ revoked w)"
    unfolding handles_ok_def by blast+
  have b: "set ?batch \<subseteq> set acceptedFiles" by (rule set_filesToProcess)
  have db: "distinct ?batch" using new by (rule distinct_filesToProcess)
  have "distinct (map fileOf (uploadedFiles w) @ ?batch)"
    using dist db tracked b apart by auto
  moreover have "set (map fileOf (uploadedFiles w) @ ?batch) \<subseteq> set (files @ acceptedFiles)"
    using tracked b by auto
  ultimately show ?thesis
    unfolding handles_ok_def using rest by (simp add: map_fileOf_newFile)
qed

lemma handles_ok_completed:
  assumes "handles_ok files w"
  shows "handles_ok files (move w (Completed fc b))"
proof -
  let ?xs = "uploadedFiles w"
  let ?u = "blobUrl (urlCounter w)"
  let ?ys = "map (mark_completed fc ?u) ?xs"
  from assms have tracked: "set (map fileOf ?xs) \<subseteq> set files"
    and dist: "distinct (map fileOf ?xs)"
    and issued: "\<And>u. u \<in> set (held_urls ?xs @ revoked w) \<Longrightarrow> \<exists>k < urlCounter w. u = blobUrl k"
    and once: "distinct (held_urls ?xs @ revoked w)"
    unfolding handles_ok_def by blast+
  have fresh: "?u \<notin> set (held_urls ?xs @ revoked w)"
  proof
    assume "?u \<in> set (held_urls ?xs @ revoked w)"
    from issued [OF this] show False by simp
  qed
  have sub: "set (held_urls ?ys) \<subseteq> insert ?u (set (held_urls ?xs))"
    by (rule held_urls_mark_completed_subset)
  have dys: "distinct (held_urls ?ys)"
    using dist fresh once by (intro held_urls_mark_completed_distinct) simp_all
  have issued': "\<exists>k < Suc (urlCounter w). u = blobUrl k"
    if "u \<in> set (held_urls ?ys @ revoked w)" for u
  proof (cases "u = ?u")
    case True
    then show ?thesis by blast
  next
    case False
    with that sub have "u \<in> set (held_urls ?xs @ revoked w)" by auto
    from issued [OF this] show ?thesis using less_Suc_eq by blast
  qed
  have once': "distinct (held_urls ?ys @ revoked w)"
    using dys once sub fresh by auto
  have up: "uploadedFiles (move w (Completed fc b)) = ?ys"
    by (simp add: freshUrl_blobUrl)
  show ?thesis
    unfolding handles_ok_def up using tracked dist issued' once' by simp
qed

lemma handles_ok_resetConverter:
  assumes "handles_ok files w"
  shows "revoked (resetConverter (render w) w) = revoked w @ held_urls (uploadedFiles w)"
    and "handles_ok files' (resetConverter (render w) w)"
proof -
  from assms have issued: "\<And>u. u \<in> set (held_urls (uploadedFiles w) @ revoked w)
      \<Longrightarrow> \<exists>k < urlCounter w. u = blobUrl k"
    and once: "distinct (held_urls (uploadedFiles w) @ revoked w)"
    unfolding handles_ok_def by blast+
  have "truthy (Some u)" if "u \<in> set (held_urls (uploadedFiles w))" for u
    using issued [of u] that by auto
  then show r: "revoked (resetConverter (render w) w) = revoked w @ held_urls (uploadedFiles w)"
    by (simp add: revokeAll_revoked)
  show "handles_ok files' (resetConverter (render w) w)"
    unfolding handles_ok_def r using issued once by auto
qed

lemma handles_ok_move:
  assumes "handles_ok files w" and "distinct (files @ move_files m)"
  shows "handles_ok (files @ move_files m) (move w m)"
proof (cases m)
  case (Dropped acceptedFiles)
  with assms show ?thesis
    using handles_ok_dropped [of files w acceptedFiles] by simp
next
  case (Completed fc b)
  with assms(1) show ?thesis
    using handles_ok_completed [of files w fc b] by simp
next
  case ResetPressed
  with assms(1) show ?thesis
    by (simp add: handles_ok_resetConverter(2))
next
  case (Converting c fc)
  have "handles_ok files (move w (Converting c fc))"
    using assms(1) by (rule handles_ok_same) (simp_all del: map_map)
  with Converting show ?thesis by simp
next
  case (Caught fc e)
  have "handles_ok files (move w (Caught fc e))"
    using assms(1) by (rule handles_ok_same) (simp_all del: map_map)
  with Caught show ?thesis by simp
next
  case Loading
  have "handles_ok files (move w Loading)"
    using assms(1) by (rule handles_ok_same) simp_all
  with Loading show ?thesis by simp
next
  case Loaded
  have "handles_ok files (move w Loaded)"
    using assms(1) by (rule handles_ok_same) simp_all
  with Loaded show ?thesis by simp
next
  case (LoadFailed e)
  have "handles_ok files (move w (LoadFailed e))"
    using assms(1) by (rule handles_ok_same) simp_all
  with LoadFailed show ?thesis by simp
next
  case (Stored nm d)
  have "handles_ok files (move w (Stored nm d))"
    using assms(1) by (rule handles_ok_same) simp_all
  with Stored show ?thesis by simp
next
  case (Removed nm)
  have "handles_ok files (move w (Removed nm))"
    using assms(1) by (rule handles_ok_same) simp_all
  with Removed show ?thesis by simp
next
  case (ExecCalled args)
  have "handles_ok files (move w (ExecCalled args))"
    using assms(1) by (rule handles_ok_same) simp_all
  with ExecCalled show ?thesis by simp
next
  case (Progress p)
  have "handles_ok files (move w (Progress p))"
    using assms(1) by (rule handles_ok_same) simp_all
  with Progress show ?thesis by simp
next
  case AllCompleted
  have "handles_ok files (move w AllCompleted)"
    using assms(1) by (rule handles_ok_same) simp_all
  with AllCompleted show ?thesis by simp
next
  case (FormatSelected v)
  have "handles_ok files (move w (FormatSelected v))"
    using assms(1) by (rule handles_ok_same) simp_all
  with FormatSelected show ?thesis by simp
next
  case (DownloadPressed i)
  have "handles_ok files (move w (DownloadPressed i))"
    using assms(1) by (rule handles_ok_same) simp_all
  with DownloadPressed show ?thesis by simp
qed

lemma run_moves_snoc: "run_moves (ms @ [m]) = move (run_moves ms) m"
  by (simp add: run_moves_def)

lemma handles_ok_run_moves:
  "fresh_moves ms \<Longrightarrow> handles_ok (concat (map move_files ms)) (run_moves ms)"
proof (induction ms rule: rev_induct)
  case Nil
  then show ?case
    by (simp add: handles_ok_def run_moves_def initialWorld_def)
next
  case (snoc m ms)
  from snoc.prems have d: "distinct (concat (map move_files ms) @ move_files m)"
    unfolding fresh_moves_def by simp
  then have "fresh_moves ms"
    unfolding fresh_moves_def by simp
  with snoc.IH have "handles_ok (concat (map move_files ms)) (run_moves ms)" .
  from handles_ok_move [OF this d] show ?case
    by (simp add: run_moves_snoc)
qed

subsection \<open>The handlers are made of moves\<close>

lemma plays_refl: "plays w w"
  unfolding plays_def by (intro exI [of _ "[]"]) simp

lemma plays_move:
  assumes "plays w w1" and "move_files m = []"
  shows "plays w (move w1 m)"
proof -
  from assms(1) obtain ms where "w1 = foldl move w ms" "concat (map move_files ms) = []"
    unfolding plays_def by blast
  with assms(2) show ?thesis
    unfolding plays_def by (intro exI [of _ "ms @ [m]"]) simp
qed

lemma plays_trans:
  assumes "plays a b" and "plays b c"
  shows "plays a c"
proof -
  from assms obtain ms ns where "b = foldl move a ms" "concat (map move_files ms) = []"
    "c = foldl move b ns" "concat (map move_files ns) = []"
    unfolding plays_def by blast
  then show ?thesis
    unfolding plays_def by (intro exI [of _ "ms @ ns"]) simp
qed

lemma plays_emitProgress: "plays w w1 \<Longrightarrow> plays w (emitProgress ps w1)"
proof (induction ps arbitrary: w1)
  case Nil
  then show ?case by simp
next
  case (Cons p ps)
  from plays_move [OF Cons.prems, of "Progress p"] have "plays w (onProgress p w1)" by simp
  then show ?case by (simp add: Cons.IH)
qed

lemma plays_at_loading: "plays w (at_loading w)"
  using plays_move [OF plays_refl, of Loading w] by (simp add: at_loading_def)

lemma plays_at_ready: "plays w (at_ready w)"
proof (cases "ffmpegRef w")
  case None
  from plays_move [OF plays_at_loading, of Loaded w] None show ?thesis
    by (simp add: at_ready_def)
next
  case (Some e)
  then show ?thesis by (simp add: at_ready_def plays_refl)
qed

lemma plays_at_started: "plays w (at_started c fc w)"
  using plays_move [OF plays_at_ready, of "Converting c fc" w] by (simp add: at_started_def)

lemma plays_at_written: "plays w (at_written c fc r w)"
  using plays_move [OF plays_at_started,
      of "Stored (inputName (fileOf fc) r) (content (fileOf fc))" w c fc]
  by (simp add: at_written_def)

lemma plays_at_ran: "plays w (at_ran c fc r w)"
  using plays_move [OF plays_at_written,
      of "ExecCalled (convertVideo_args (c_outputFormat c) (inputName (fileOf fc) r)
            (outputName (c_outputFormat c) r))" w c fc r]
  by (simp add: at_ran_def plays_emitProgress)

lemma plays_at_output: "plays w (at_output c fc r w)"
  using plays_move [OF plays_at_ran,
      of "Stored (outputName (c_outputFormat c) r) (exec_output r)" w c fc r]
  by (simp add: at_output_def)

lemma plays_at_completed: "plays w (at_completed c fc r w)"
  using plays_move [OF plays_at_output,
      of "Completed fc \<lparr>blob_data = exec_output r, blob_type = mimeType (c_outputFormat c)\<rparr>"
        w c fc r]
  by (simp add: at_completed_def at_output_freshUrl)

lemma plays_at_deleted_in: "plays w (at_deleted_in c fc r w)"
  using plays_move [OF plays_at_completed, of "Removed (inputName (fileOf fc) r)" w c fc r]
  by (simp add: at_deleted_in_def)

lemma plays_at_deleted_out: "plays w (at_deleted_out c fc r w)"
  using plays_move [OF plays_at_deleted_in, of "Removed (outputName (c_outputFormat c) r)" w c fc r]
  by (simp add: at_deleted_out_def)

lemma plays_at_finished: "plays w (at_finished c fc r w)"
  using plays_move [OF plays_at_deleted_out, of AllCompleted w c fc r] plays_at_deleted_out [of w c fc r]
  by (simp add: at_finished_def)

lemma plays_catch: "plays w w1 \<Longrightarrow> plays w (convertVideo_catch fc e w1)"
  using plays_move [of w w1 "Caught fc e"] by simp

lemma plays_load_failed: "plays w (console_error ''Failed to load FFmpeg:'' e (at_loading w))"
  using plays_move [OF plays_at_loading, of "LoadFailed e" w] by simp

lemma plays_convertVideo: "plays w (convertVideo c fc r w)"
  unfolding convertVideo_eq
  by (auto intro!: plays_catch plays_load_failed plays_at_started plays_at_ran plays_at_output
        plays_at_completed plays_at_deleted_in plays_at_finished)

lemma plays_convertAll: "plays w (convertAll c env todo w)"
proof (induction todo arbitrary: w)
  case Nil
  then show ?case by (simp add: plays_refl)
next
  case (Cons fc rest)
  from plays_trans [OF plays_convertVideo Cons.IH] show ?case by simp
qed

lemma onDrop_moves:
  "\<exists>ms. onDrop (render w) acceptedFiles env w = foldl move w ms \<and>
        concat (map move_files ms) = acceptedFiles"
proof -
  let ?w1 = "move w (Dropped acceptedFiles)"
  from plays_convertAll [of ?w1 "render w" env "map newFile (filesToProcess (render w) acceptedFiles)"]
  obtain ms where ms: "convertAll (render w) env (map newFile (filesToProcess (render w) acceptedFiles)) ?w1
      = foldl move ?w1 ms" "concat (map move_files ms) = []"
    unfolding plays_def by blast
  have "onDrop (render w) acceptedFiles env w = foldl move w (Dropped acceptedFiles # ms)"
    using ms(1) by (simp add: onDrop_convertAll)
  moreover have "concat (map move_files (Dropped acceptedFiles # ms)) = acceptedFiles"
    using ms(2) by simp
  ultimately show ?thesis by blast
qed

lemma step_moves:
  "\<exists>ms. step w ev = foldl move w ms \<and> concat (map move_files ms) = dropped ev"
proof (cases ev)
  case (Drop acceptedFiles env)
  then show ?thesis using onDrop_moves [of w acceptedFiles env] by simp
next
  case (SelectFormat v)
  then show ?thesis by (intro exI [of _ "[FormatSelected v]"]) simp
next
  case (Download i)
  then show ?thesis by (intro exI [of _ "[DownloadPressed i]"]) simp
next
  case Reset
  then show ?thesis by (intro exI [of _ "[ResetPressed]"]) simp
qed

lemma run_events_moves:
  "\<exists>ms. run_events evs = run_moves ms \<and>
        concat (map move_files ms) = concat (map dropped evs)"
proof (induction evs rule: rev_induct)
  case Nil
  show ?case by (intro exI [of _ "[]"]) (simp add: run_events_def run_moves_def)
next
  case (snoc ev evs)
  then obtain ms where ms: "run_events evs = run_moves ms"
    "concat (map move_files ms) = concat (map dropped evs)" by blast
  from step_moves [of "run_events evs" ev]
  obtain ns where ns: "step (run_events evs) ev = foldl move (run_events evs) ns"
    "concat (map move_files ns) = dropped ev" by blast
  have "run_events (evs @ [ev]) = run_moves (ms @ ns)"
    using ns(1) by (simp add: run_events_snoc ms(1) run_moves_def)
  moreover have "concat (map move_files (ms @ ns)) = concat (map dropped (evs @ [ev]))"
    by (simp add: ms(2) ns(2))
  ultimately show ?case by blast
qed

text \<open>The bound on the job list holds after every list of moves as well.\<close>

lemma run_moves_capacity: "length (uploadedFiles (run_moves ms)) \<le> 5"
proof (induction ms rule: rev_induct)
  case Nil
  then show ?case by (simp add: run_moves_def initialWorld_def)
next
  case (snoc m ms)
  show ?case
  proof (cases m)
    case (Dropped acceptedFiles)
    with snoc show ?thesis
      by (simp add: run_moves_snoc filesToProcess_current)
  next
    case (Caught fileConversion e)
    with snoc show ?thesis
      by (simp add: run_moves_snoc convertVideo_catch_def)
  next
    case (Progress p)
    with snoc show ?thesis
      by (simp add: run_moves_snoc onProgress_def)
  qed (use snoc in \<open>simp_all add: run_moves_snoc\<close>)
qed

text \<open>
  The sample \<open>midDrop\<close> is the world in which \<open>onDrop\<close>, called with two files on the
  fresh page, has finished the first conversion and awaits \<open>fetchFile\<close> in the second.
\<close>

lemma midDrop_in_flight:
  "run_moves midDrop =
     at_started (render initialWorld) (newFile fileB)
       (convertVideo (render initialWorld) (newFile fileA) okRun
          (setUploadedFiles
             (\<lambda>prev. prev @ map newFile (filesToProcess (render initialWorld) [fileA, fileB]))
             initialWorld))"
  by (simp add: run_moves_def midDrop_def sym_defs stage_defs completedState_def
      convertingState_def loadingState_def idleState_def onProgress_def
      setUploadedFiles_def setConversionState_def on_fs_def logExec_def registerUrl_def
      fs_store_def fs_remove_def console_error_def Let_def)

lemma initializeFFmpeg_reuses:
  "ffmpegRef w \<noteq> None \<Longrightarrow> initializeFFmpeg r w = (Inr (), w)"
  by (auto simp: initializeFFmpeg_def)

text \<open>
  Claim C9. \<open>resetConverter\<close> calls \<open>revokeObjectURL\<close> for the handle of every job that holds
  one, once per job and for nothing else; in a run no handle is ever revoked twice, so
  each handle still held is released exactly once. The job list is then empty and the
  phase is \<open>idle\<close>. The engine in \<open>ffmpegRef\<close> is left as it is, and with an engine in
  \<open>ffmpegRef\<close> a later \<open>initializeFFmpeg\<close> returns at once, without a second \<open>load\<close>
  (whatever \<open>load\<close> would answer) and without a change of the state. This holds for a
  click on \<open>Clear All Files\<close> at any moment of any run, also between the awaits of drops
  that are still in flight and after earlier such clicks: the theorem is about the world
  after any list of moves. The handles in question are those the jobs hold at the click;
  a handle that a conversion in flight creates afterwards, for a job the click has
  removed, is stored in no job.
\<close>

theorem reset_releases_each_held_handle_once:
  assumes "fresh_moves ms"
  shows "revoked (resetConverter (render (run_moves ms)) (run_moves ms))
           = revoked (run_moves ms) @ held_urls (uploadedFiles (run_moves ms))
       \<and> distinct (revoked (resetConverter (render (run_moves ms)) (run_moves ms)))
       \<and> uploadedFiles (resetConverter (render (run_moves ms)) (run_moves ms)) = []
       \<and> phase (conversionState (resetConverter (render (run_moves ms)) (run_moves ms)))
           = P_idle
       \<and> ffmpegRef (resetConverter (render (run_moves ms)) (run_moves ms))
           = ffmpegRef (run_moves ms)
       \<and> (ffmpegRef (run_moves ms) \<noteq> None \<longrightarrow>
            initializeFFmpeg r (resetConverter (render (run_moves ms)) (run_moves ms))
              = (Inr (), resetConverter (render (run_moves ms)) (run_moves ms)))"
proof -
  let ?w = "run_moves ms"
  let ?w' = "resetConverter (render ?w) ?w"
  from assms have ok: "handles_ok (concat (map move_files ms)) ?w"
    by (rule handles_ok_run_moves)
  then have r: "revoked ?w' = revoked ?w @ held_urls (uploadedFiles ?w)"
    by (rule handles_ok_resetConverter(1))
  from ok have "distinct (held_urls (uploadedFiles ?w) @ revoked ?w)"
    unfolding handles_ok_def by blast
  then have d: "distinct (revoked ?w')"
    unfolding r by auto
  have i: "ffmpegRef ?w \<noteq> None \<longrightarrow> initializeFFmpeg r ?w' = (Inr (), ?w')"
    by (simp add: initializeFFmpeg_reuses)
  from r d i show ?thesis
    by (simp add: idleState_def)
qed

theorem reset_releases_each_held_handle_once_witness:
  "fresh_moves midDrop
   \<and> run_moves midDrop =
       at_started (render initialWorld) (newFile fileB)
         (convertVideo (render initialWorld) (newFile fileA) okRun
            (setUploadedFiles
               (\<lambda>prev. prev @ map newFile (filesToProcess (render initialWorld) [fileA, fileB]))
               initialWorld))
   \<and> map status (uploadedFiles (run_moves midDrop)) = [S_completed, S_converting]
   \<and> held_urls (uploadedFiles (run_moves midDrop)) = [''blob:0'']
   \<and> revoked (resetConverter (render (run_moves midDrop)) (run_moves midDrop)) = [''blob:0'']
   \<and> ffmpegRef (run_moves midDrop) = Some \<lparr>fs = []\<rparr>
   \<and> initializeFFmpeg (okRun\<lparr>load_result := Some ''offline''\<rparr>)
        (resetConverter (render (run_moves midDrop)) (run_moves midDrop))
       = (Inr (), resetConverter (render (run_moves midDrop)) (run_moves midDrop))"
proof -
  have f: "fresh_moves midDrop"
    by (simp add: fresh_moves_def midDrop_def fileA_def fileB_def)
  have u: "uploadedFiles (run_moves midDrop) =
      [\<lparr>fileOf = fileA, status = S_completed, progress = 100,
         downloadUrl = Some ''blob:0'', error = None\<rparr>,
       \<lparr>fileOf = fileB, status = S_converting, progress = 0,
         downloadUrl = None, error = None\<rparr>]"
    by (simp add: run_moves_def midDrop_def sym_defs)
  have s: "map status (uploadedFiles (run_moves midDrop)) = [S_completed, S_converting]"
    unfolding u by simp
  have h: "held_urls (uploadedFiles (run_moves midDrop)) = [''blob:0'']"
    unfolding u by simp
  have v: "revoked (run_moves midDrop) = []"
    by (simp add: run_moves_def midDrop_def initialWorld_def)
  have e: "ffmpegRef (run_moves midDrop) = Some \<lparr>fs = []\<rparr>"
    by (simp add: run_moves_def midDrop_def initialWorld_def fs_store_def fs_remove_def)
  note inst = reset_releases_each_held_handle_once [OF f,
      of "okRun\<lparr>load_result := Some ''offline''\<rparr>", unfolded h v e]
  from inst f s h e have rest: "fresh_moves midDrop
   \<and> map status (uploadedFiles (run_moves midDrop)) = [S_completed, S_converting]
   \<and> held_urls (uploadedFiles (run_moves midDrop)) = [''blob:0'']
   \<and> revoked (resetConverter (render (run_moves midDrop)) (run_moves midDrop)) = [''blob:0'']
   \<and> ffmpegRef (run_moves midDrop) = Some \<lparr>fs = []\<rparr>
   \<and> initializeFFmpeg (okRun\<lparr>load_result := Some ''offline''\<rparr>)
        (resetConverter (render (run_moves midDrop)) (run_moves midDrop))
       = (Inr (), resetConverter (render (run_moves midDrop)) (run_moves midDrop))"
    by simp
  with midDrop_in_flight show ?thesis
    by blast
qed

end
